theory Spec2Isabelle
  imports Complex_Main
begin

unbundle bit_operations_syntax

section \<open>The Neopixel pixel buffer of neopixel.py\<close>

text \<open>
  The class \<^verbatim>\<open>Neopixel\<close> of \<^verbatim>\<open>src/neopixel.py\<close> is embedded as a record
  with explicit state passing. Python integers are \<open>int\<close>; every exception the
  interpreter raises in the modelled code is a value of \<open>py_error\<close>. The PIO state
  machine is hardware: of it only the program chosen by the constructor and the words
  handed to \<^verbatim>\<open>sm.put\<close> are kept.
\<close>

subsection \<open>Python values and exceptions\<close>

datatype py_error = IndexError | ValueError | KeyError | TypeError
  | OverflowError | ZeroDivisionError

definition bind_err :: "'e + 'a \<Rightarrow> ('a \<Rightarrow> 'e + 'b) \<Rightarrow> 'e + 'b" where
  "bind_err r f = (case r of Inl e \<Rightarrow> Inl e | Inr x \<Rightarrow> f x)"

text \<open>\<^verbatim>\<open>mode.index(c)\<close>: the position of the first occurrence, ValueError when absent.\<close>

fun str_index :: "string \<Rightarrow> char \<Rightarrow> py_error + int" where
  "str_index [] c = Inl ValueError"
| "str_index (x # xs) c =
     (if x = c then Inr 0 else bind_err (str_index xs c) (\<lambda>k. Inr (k + 1)))"

text \<open>\<^verbatim>\<open>t[k]\<close> for a tuple or list and a literal index \<open>k \<ge> 0\<close>.\<close>

definition tuple_getitem :: "int list \<Rightarrow> nat \<Rightarrow> py_error + int" where
  "tuple_getitem t k = (if k < length t then Inr (t ! k) else Inl IndexError)"

text \<open>\<^verbatim>\<open>d[k]\<close> for a dict.\<close>

definition dict_getitem :: "(char \<rightharpoonup> int) \<Rightarrow> char \<Rightarrow> py_error + int" where
  "dict_getitem d k = (case d k of None \<Rightarrow> Inl KeyError | Some v \<Rightarrow> Inr v)"

text \<open>\<^verbatim>\<open>a << n\<close> on Python integers: a negative shift count raises ValueError.\<close>

definition py_lshift :: "int \<Rightarrow> int \<Rightarrow> py_error + int" where
  "py_lshift a n = (if n < 0 then Inl ValueError else Inr (push_bit (nat n) a))"

text \<open>
  \<^verbatim>\<open>round(x)\<close> with one argument: the nearest integer, a tie going to the even
  neighbour.
\<close>

definition py_round :: "rat \<Rightarrow> int" where
  "py_round x =
     (let f = \<lfloor>x\<rfloor>; d = x - of_int f
      in if d < 1 / 2 then f else if 1 / 2 < d then f + 1
         else if even f then f else f + 1)"

text \<open>
  \<^verbatim>\<open>a[i] = v\<close> for an \<^verbatim>\<open>array.array("I")\<close>: a negative index counts from the end,
  an index outside the array raises IndexError, and only then is the value converted
  to an unsigned 32-bit item (OverflowError outside \<open>[0, 2^32)\<close>).
\<close>

definition array_setitem :: "int list \<Rightarrow> int \<Rightarrow> int \<Rightarrow> py_error + int list" where
  "array_setitem a i v =
     (let n = int (length a); j = (if i < 0 then i + n else i)
      in if j < 0 \<or> n \<le> j then Inl IndexError
         else if v < 0 \<or> 2 ^ 32 \<le> v then Inl OverflowError
         else Inr (a[nat j := v]))"

text \<open>\<^verbatim>\<open>a[i]\<close> for the same array.\<close>

definition array_getitem :: "int list \<Rightarrow> int \<Rightarrow> py_error + int" where
  "array_getitem a i =
     (let n = int (length a); j = (if i < 0 then i + n else i)
      in if j < 0 \<or> n \<le> j then Inl IndexError else Inr (a ! nat j))"

text \<open>The slices \<^verbatim>\<open>a[n:]\<close> and \<^verbatim>\<open>a[:n]\<close>: the bound is clamped into the array.\<close>

definition slice_bound :: "'a list \<Rightarrow> int \<Rightarrow> nat" where
  "slice_bound a n =
     (let l = int (length a)
      in if n < 0 then nat (max 0 (n + l)) else nat (min n l))"

definition slice_from :: "'a list \<Rightarrow> int \<Rightarrow> 'a list" where
  "slice_from a n = drop (slice_bound a n) a"

definition slice_to :: "'a list \<Rightarrow> int \<Rightarrow> 'a list" where
  "slice_to a n = take (slice_bound a n) a"

subsection \<open>The class Neopixel\<close>

datatype pio_program = ws2812 | sk6812

record neopixel =
  pixels :: "int list"
  mode :: "char set"
  sm :: pio_program
  shift :: "char \<rightharpoonup> int"
  num_leds :: int
  delay :: rat
  brightnessvalue :: int

text \<open>
  \<^verbatim>\<open>__init__(self, num_leds, state_machine, pin, mode, delay)\<close>. The state machine
  number and the pin only reach the hardware and are left out.
\<close>

definition shift_rgbw :: "string \<Rightarrow> char \<Rightarrow> py_error + int" where
  "shift_rgbw m c = bind_err (str_index m c) (\<lambda>k. Inr ((k XOR 3) * 8))"

definition shift_rgb :: "string \<Rightarrow> char \<Rightarrow> py_error + int" where
  "shift_rgb m c = bind_err (str_index m c) (\<lambda>k. Inr (((k XOR 3) - 1) * 8))"

definition init :: "int \<Rightarrow> string \<Rightarrow> rat \<Rightarrow> py_error + neopixel" where
  "init n m dl =
     (let px = replicate (nat n) (0::int); ms = set m
      in if CHR ''W'' \<in> ms then
           bind_err (shift_rgbw m CHR ''R'') (\<lambda>r.
           bind_err (shift_rgbw m CHR ''G'') (\<lambda>g.
           bind_err (shift_rgbw m CHR ''B'') (\<lambda>b.
           bind_err (shift_rgbw m CHR ''W'') (\<lambda>w.
             Inr \<lparr>pixels = px, mode = ms, sm = sk6812,
                  shift = [CHR ''R'' \<mapsto> r, CHR ''G'' \<mapsto> g, CHR ''B'' \<mapsto> b, CHR ''W'' \<mapsto> w],
                  num_leds = n, delay = dl, brightnessvalue = 255\<rparr>))))
         else
           bind_err (shift_rgb m CHR ''R'') (\<lambda>r.
           bind_err (shift_rgb m CHR ''G'') (\<lambda>g.
           bind_err (shift_rgb m CHR ''B'') (\<lambda>b.
             Inr \<lparr>pixels = px, mode = ms, sm = ws2812,
                  shift = [CHR ''R'' \<mapsto> r, CHR ''G'' \<mapsto> g, CHR ''B'' \<mapsto> b, CHR ''W'' \<mapsto> 0],
                  num_leds = n, delay = dl, brightnessvalue = 255\<rparr>))))"

text \<open>
  \<^verbatim>\<open>brightness(self, brightness=None)\<close>: the pair of the returned value (\<open>None\<close>
  when the method falls off its end) and the state afterwards.
\<close>

definition brightness :: "neopixel \<Rightarrow> int option \<Rightarrow> int option \<times> neopixel" where
  "brightness self arg =
     (case arg of
        None \<Rightarrow> (Some (brightnessvalue self), self)
      | Some v \<Rightarrow>
          (let v1 = (if v < 1 then 1 else v);
               v2 = (if 255 < v1 then 255 else v1)
           in (None, self\<lparr>brightnessvalue := v2\<rparr>)))"

text \<open>
  \<^verbatim>\<open>round(rgb_w[k] * (self.brightness() / 255))\<close>. The quotient and the product are
  taken exactly here. The interpreter takes them in floating point; since
  \<open>2 * c * b\<close> is even and \<open>255 * (2 * k + 1)\<close> is odd, the exact product is never
  a tie and lies at least \<open>1 / 510\<close> from one, so both agree as long as the floating
  point error stays below that (channel values up to some thousands in single
  precision, and every channel value that a float holds exactly when the brightness is
  255, where the quotient is exactly 1). A channel value too large for a float raises
  OverflowError in the interpreter and has no counterpart here: the theorems on
  \<^verbatim>\<open>set_pixel\<close> are stated for channel values in \<open>[0, 255]\<close> and a brightness in
  \<open>[1, 255]\<close>, or at an explicit colour.
\<close>

definition scale_channel :: "neopixel \<Rightarrow> int list \<Rightarrow> nat \<Rightarrow> py_error + int" where
  "scale_channel self rgb_w k =
     bind_err (tuple_getitem rgb_w k) (\<lambda>c.
       case fst (brightness self None) of
         None \<Rightarrow> Inl TypeError
       | Some b \<Rightarrow> Inr (py_round (of_int c * (of_int b / 255))))"

text \<open>
  \<^verbatim>\<open>white << pos['W'] | blue << pos['B'] | red << pos['R'] | green << pos['G']\<close>
\<close>

definition shifted :: "(char \<rightharpoonup> int) \<Rightarrow> int \<Rightarrow> char \<Rightarrow> py_error + int" where
  "shifted pos v c = bind_err (dict_getitem pos c) (\<lambda>n. py_lshift v n)"

definition pack :: "(char \<rightharpoonup> int) \<Rightarrow> int \<Rightarrow> int \<Rightarrow> int \<Rightarrow> int \<Rightarrow> py_error + int" where
  "pack pos white blue red green =
     bind_err (shifted pos white CHR ''W'') (\<lambda>w.
     bind_err (shifted pos blue CHR ''B'') (\<lambda>b.
     bind_err (shifted pos red CHR ''R'') (\<lambda>r.
     bind_err (shifted pos green CHR ''G'') (\<lambda>g.
       Inr (w OR b OR r OR g)))))"

text \<open>\<^verbatim>\<open>set_pixel(self, pixel_num, rgb_w)\<close>: the one write to the array comes last.\<close>

definition set_pixel :: "neopixel \<Rightarrow> int \<Rightarrow> int list \<Rightarrow> py_error + neopixel" where
  "set_pixel self pixel_num rgb_w =
     (let pos = shift self in
      bind_err (scale_channel self rgb_w 0) (\<lambda>red.
      bind_err (scale_channel self rgb_w 1) (\<lambda>green.
      bind_err (scale_channel self rgb_w 2) (\<lambda>blue.
      bind_err (if length rgb_w = 4 \<and> CHR ''W'' \<in> mode self
                then scale_channel self rgb_w 3 else Inr 0) (\<lambda>white.
      bind_err (pack pos white blue red green) (\<lambda>word.
      bind_err (array_setitem (pixels self) pixel_num word) (\<lambda>px.
        Inr (self\<lparr>pixels := px\<rparr>))))))))"

text \<open>
  \<^verbatim>\<open>set_pixel_line(self, pixel1, pixel2, rgb_w)\<close>: the loop over
  \<^verbatim>\<open>range(pixel1, pixel2 + 1)\<close>. An exception leaves the loop with the slots written
  so far, so the result of a failed call carries the buffer as it is then.
\<close>

fun set_pixel_loop ::
  "neopixel \<Rightarrow> int list \<Rightarrow> int list \<Rightarrow> (py_error \<times> neopixel) + neopixel" where
  "set_pixel_loop self [] rgb_w = Inr self"
| "set_pixel_loop self (i # rest) rgb_w =
     (case set_pixel self i rgb_w of
        Inl e \<Rightarrow> Inl (e, self)
      | Inr self' \<Rightarrow> set_pixel_loop self' rest rgb_w)"

definition set_pixel_line ::
  "neopixel \<Rightarrow> int \<Rightarrow> int \<Rightarrow> int list \<Rightarrow> (py_error \<times> neopixel) + neopixel" where
  "set_pixel_line self pixel1 pixel2 rgb_w = set_pixel_loop self [pixel1..pixel2] rgb_w"

text \<open>
  \<^verbatim>\<open>rotate_left(self, num_of_pixels=1)\<close> and \<^verbatim>\<open>rotate_right(self, num_of_pixels)\<close>:
  only \<^verbatim>\<open>None\<close> is replaced by 1.
\<close>

definition rotate_left :: "neopixel \<Rightarrow> int option \<Rightarrow> neopixel" where
  "rotate_left self arg =
     (let n = (case arg of None \<Rightarrow> 1 | Some k \<Rightarrow> k)
      in self\<lparr>pixels := slice_from (pixels self) n @ slice_to (pixels self) n\<rparr>)"

definition rotate_right :: "neopixel \<Rightarrow> int option \<Rightarrow> neopixel" where
  "rotate_right self arg =
     (let n = (case arg of None \<Rightarrow> 1 | Some k \<Rightarrow> k);
          n' = - 1 * n
      in self\<lparr>pixels := slice_from (pixels self) n' @ slice_to (pixels self) n'\<rparr>)"

text \<open>
  \<^verbatim>\<open>show(self)\<close>: the list of the calls \<^verbatim>\<open>sm.put(word, cut)\<close> it makes, in order;
  with an exception, the calls made before it. The closing
  \<^verbatim>\<open>time.sleep(self.delay)\<close> raises ValueError for a negative delay, after the puts.
\<close>

fun put_loop ::
  "int list \<Rightarrow> int list \<Rightarrow> int \<Rightarrow> (int \<times> int) list
     \<Rightarrow> (py_error \<times> (int \<times> int) list) + (int \<times> int) list" where
  "put_loop a [] cutbits sent = Inr sent"
| "put_loop a (i # rest) cutbits sent =
     (case array_getitem a i of
        Inl e \<Rightarrow> Inl (e, sent)
      | Inr w \<Rightarrow> put_loop a rest cutbits (sent @ [(w, cutbits)]))"

definition show_strip :: "neopixel \<Rightarrow> (py_error \<times> (int \<times> int) list) + (int \<times> int) list" where
  "show_strip self =
     (let cutbits = (if CHR ''W'' \<in> mode self then 0 else 8)
      in case put_loop (pixels self) [0..num_leds self - 1] cutbits [] of
           Inl x \<Rightarrow> Inl x
         | Inr sent \<Rightarrow> if delay self < 0 then Inl (ValueError, sent) else Inr sent)"

text \<open>
  \<^verbatim>\<open>segment_gradient(self, color_list, pixel1, pixel2, reverse, rainbow)\<close>.
  The interpolation
  \<^verbatim>\<open>round((second[k] - first[k]) * fraction + first[k])\<close>
  with \<^verbatim>\<open>fraction = j / (end_pixel - start_pixel)\<close> is floating-point arithmetic that
  can land on either side of a tie. It is the parameter \<open>interp second first j d\<close>
  of the model, which is otherwise the code: the locals \<^verbatim>\<open>start_pixel\<close>,
  \<^verbatim>\<open>end_pixel\<close> and \<^verbatim>\<open>reverse\<close> that the inner loop assigns, the range of the inner
  loop fixed when the loop starts, the \<^verbatim>\<open>break\<close>, and the exceptions.
\<close>

record seg_locals =
  start_pixel :: int
  end_pixel :: int
  reverse :: bool

definition list_getitem :: "'a list \<Rightarrow> int \<Rightarrow> py_error + 'a" where
  "list_getitem xs i =
     (let n = int (length xs); j = (if i < 0 then i + n else i)
      in if j < 0 \<or> n \<le> j then Inl IndexError else Inr (xs ! nat j))"

definition interp_channel ::
  "(int \<Rightarrow> int \<Rightarrow> int \<Rightarrow> int \<Rightarrow> int) \<Rightarrow> int list \<Rightarrow> int list \<Rightarrow> nat \<Rightarrow> int \<Rightarrow> int
     \<Rightarrow> py_error + int" where
  "interp_channel interp second first k j d =
     bind_err (tuple_getitem second k) (\<lambda>x.
     bind_err (tuple_getitem first k) (\<lambda>y. Inr (interp x y j d)))"

text \<open>One pass of the inner loop body; the flag returned is whether it ended in \<^verbatim>\<open>break\<close>.\<close>

definition seg_body ::
  "(int \<Rightarrow> int \<Rightarrow> int \<Rightarrow> int \<Rightarrow> int) \<Rightarrow> int list list \<Rightarrow> int \<Rightarrow> int \<Rightarrow> bool
     \<Rightarrow> int \<Rightarrow> int list \<Rightarrow> int \<Rightarrow> neopixel \<Rightarrow> seg_locals
     \<Rightarrow> py_error + (neopixel \<times> seg_locals \<times> bool)" where
  "seg_body interp color_list pixel2 step rainbow i color j self loc =
     (let sp = i * step; first_rgb_w = color; ep0 = sp + step in
      bind_err (if pixel2 \<le> ep0
                then bind_err (list_getitem color_list 0) (\<lambda>c. Inr (pixel2, c))
                else bind_err (list_getitem color_list (i + 1)) (\<lambda>c. Inr (ep0, c)))
        (\<lambda>(ep, second_rgb_w).
      bind_err (if ep - sp = 0 then Inl ZeroDivisionError else Inr (ep - sp)) (\<lambda>d.
      bind_err (interp_channel interp second_rgb_w first_rgb_w 0 j d) (\<lambda>red.
      bind_err (interp_channel interp second_rgb_w first_rgb_w 1 j d) (\<lambda>green.
      bind_err (interp_channel interp second_rgb_w first_rgb_w 2 j d) (\<lambda>blue.
      bind_err (if length first_rgb_w = 4 \<and> CHR ''W'' \<in> mode self
                then bind_err (interp_channel interp second_rgb_w first_rgb_w 3 j d)
                       (\<lambda>white. Inr [red, green, blue, white])
                else Inr [red, green, blue]) (\<lambda>rgb_w.
      bind_err (set_pixel self (if \<not> reverse loc then sp + j else ep - j) rgb_w) (\<lambda>self'.
        if rainbow
        then Inr (self', loc\<lparr>start_pixel := sp, end_pixel := ep\<rparr>, pixel2 + 2 < ep + j)
        else Inr (self', \<lparr>start_pixel = ep, end_pixel = pixel2, reverse = True\<rparr>,
                  False)))))))))"

fun seg_inner ::
  "(int \<Rightarrow> int \<Rightarrow> int \<Rightarrow> int \<Rightarrow> int) \<Rightarrow> int list list \<Rightarrow> int \<Rightarrow> int \<Rightarrow> bool
     \<Rightarrow> int \<Rightarrow> int list \<Rightarrow> int list \<Rightarrow> neopixel \<Rightarrow> seg_locals
     \<Rightarrow> (py_error \<times> neopixel) + (neopixel \<times> seg_locals)" where
  "seg_inner interp color_list pixel2 step rainbow i color [] self loc = Inr (self, loc)"
| "seg_inner interp color_list pixel2 step rainbow i color (j # js) self loc =
     (case seg_body interp color_list pixel2 step rainbow i color j self loc of
        Inl e \<Rightarrow> Inl (e, self)
      | Inr (self', loc', brk) \<Rightarrow>
          if brk then Inr (self', loc')
          else seg_inner interp color_list pixel2 step rainbow i color js self' loc')"

fun seg_outer ::
  "(int \<Rightarrow> int \<Rightarrow> int \<Rightarrow> int \<Rightarrow> int) \<Rightarrow> int list list \<Rightarrow> int \<Rightarrow> int \<Rightarrow> bool
     \<Rightarrow> (int \<times> int list) list \<Rightarrow> neopixel \<Rightarrow> seg_locals
     \<Rightarrow> (py_error \<times> neopixel) + neopixel" where
  "seg_outer interp color_list pixel2 step rainbow [] self loc = Inr self"
| "seg_outer interp color_list pixel2 step rainbow ((i, color) # rest) self loc =
     (case seg_inner interp color_list pixel2 step rainbow i color
             [0..end_pixel loc - start_pixel loc] self loc of
        Inl x \<Rightarrow> Inl x
      | Inr (self', loc') \<Rightarrow> seg_outer interp color_list pixel2 step rainbow rest self' loc')"

definition enumerate_list :: "'a list \<Rightarrow> (int \<times> 'a) list" where
  "enumerate_list xs = zip (map int [0..<length xs]) xs"

definition segment_gradient ::
  "(int \<Rightarrow> int \<Rightarrow> int \<Rightarrow> int \<Rightarrow> int) \<Rightarrow> neopixel \<Rightarrow> int list list \<Rightarrow> int \<Rightarrow> int
     \<Rightarrow> bool \<Rightarrow> bool \<Rightarrow> (py_error \<times> neopixel) + neopixel" where
  "segment_gradient interp self color_list pixel1 pixel2 reverse0 rainbow =
     (if pixel2 - pixel1 = 0 then Inr self
      else
        let divs = int (length color_list) in
        if divs = 0 then Inl (ZeroDivisionError, self)
        else
          let step = (pixel2 + 1) div divs;
              rainbow' = (if divs = 4 then True else rainbow);
              reverse' = (if divs = 4 then False else reverse0)
          in seg_outer interp color_list pixel2 step rainbow' (enumerate_list color_list) self
               \<lparr>start_pixel = pixel1, end_pixel = step, reverse = reverse'\<rparr>)"

text \<open>
  The interpolation \<^verbatim>\<open>round((second[k] - first[k]) * (j / d) + first[k])\<close> taken
  exactly. The interpreter's result is this one whenever the floating-point error does
  not carry the value across a tie; that is so in the module's own example, where the
  channel values are 0 and 255 and \<open>d\<close> is 4 (the fractions are exact in binary) or 3
  (the exact values are the integers 0, 85, 170 and 255).
\<close>

definition interp_exact :: "int \<Rightarrow> int \<Rightarrow> int \<Rightarrow> int \<Rightarrow> int" where
  "interp_exact x y j d = py_round (of_int (x - y) * (of_int j / of_int d) + of_int y)"

subsection \<open>The specification's vocabulary\<close>

text \<open>
  A mode string the specification supports: a permutation of the letters RGB or of
  RGBW.
\<close>

definition valid_mode :: "string \<Rightarrow> bool" where
  "valid_mode m \<longleftrightarrow>
     (length m = 3 \<and> set m = {CHR ''R'', CHR ''G'', CHR ''B''}) \<or>
     (length m = 4 \<and> set m = {CHR ''R'', CHR ''G'', CHR ''B'', CHR ''W''})"

text \<open>The specification's scaled channel value \<^verbatim>\<open>round(c[ch]*brightness/255)\<close>.\<close>

definition spec_scale :: "int \<Rightarrow> int \<Rightarrow> int" where
  "spec_scale c b = py_round (of_int (c * b) / 255)"

text \<open>
  Reading a channel back from a packed word with the buffer's own channel order:
  \<^verbatim>\<open>(word >> pos[ch]) & 0xFF\<close>.
\<close>

definition unpack :: "(char \<rightharpoonup> int) \<Rightarrow> int \<Rightarrow> char \<Rightarrow> py_error + int" where
  "unpack pos w c =
     bind_err (dict_getitem pos c) (\<lambda>n.
       if n < 0 then Inl ValueError else Inr (drop_bit (nat n) w AND 255))"

text \<open>The specification's rotation by an offset taken modulo the number of LEDs.\<close>

definition spec_rotate_left :: "int \<Rightarrow> 'a list \<Rightarrow> 'a list" where
  "spec_rotate_left k xs = rotate (nat (k mod int (length xs))) xs"

definition spec_rotate_right :: "int \<Rightarrow> 'a list \<Rightarrow> 'a list" where
  "spec_rotate_right k xs = rotate (nat ((- k) mod int (length xs))) xs"

subsection \<open>A concrete strip\<close>

text \<open>The buffer that \<^verbatim>\<open>Neopixel(3, 0, 22, "RGB")\<close> constructs.\<close>

definition rgb3 :: neopixel where
  "rgb3 = \<lparr>pixels = [0, 0, 0], mode = {CHR ''R'', CHR ''G'', CHR ''B''}, sm = ws2812,
          shift = [CHR ''R'' \<mapsto> 16, CHR ''G'' \<mapsto> 8, CHR ''B'' \<mapsto> 0, CHR ''W'' \<mapsto> 0],
          num_leds = 3, delay = 1 / 10000, brightnessvalue = 255\<rparr>"

text \<open>
  The buffer that \<^verbatim>\<open>Neopixel(16, 0, 22, "GRB")\<close> constructs, the strip of the
  module's own example run.
\<close>

definition grb16 :: neopixel where
  "grb16 = \<lparr>pixels = replicate 16 0, mode = {CHR ''G'', CHR ''R'', CHR ''B''}, sm = ws2812,
          shift = [CHR ''R'' \<mapsto> 8, CHR ''G'' \<mapsto> 16, CHR ''B'' \<mapsto> 0, CHR ''W'' \<mapsto> 0],
          num_leds = 16, delay = 1 / 10000, brightnessvalue = 255\<rparr>"

section \<open>Brightness\<close>

text \<open>
  C8: \<^verbatim>\<open>brightness(v)\<close> stores 1 for every \<open>v\<close> below 1, 255 for every \<open>v\<close> above
  255 and \<open>v\<close> itself in between, so that \<^verbatim>\<open>brightness(0)\<close> does what
  \<^verbatim>\<open>brightness(1)\<close> does and \<^verbatim>\<open>brightness(300)\<close> what \<^verbatim>\<open>brightness(255)\<close> does;
  \<^verbatim>\<open>brightness()\<close> returns the stored value and leaves the state as it is.
\<close>

theorem brightness_clamps:
  "(v < 1 \<longrightarrow> brightness self (Some v) = (None, self\<lparr>brightnessvalue := 1\<rparr>))
   \<and> (255 < v \<longrightarrow> brightness self (Some v) = (None, self\<lparr>brightnessvalue := 255\<rparr>))
   \<and> (1 \<le> v \<and> v \<le> 255 \<longrightarrow> brightness self (Some v) = (None, self\<lparr>brightnessvalue := v\<rparr>))
   \<and> brightness self (Some 0) = brightness self (Some 1)
   \<and> brightness self (Some 300) = brightness self (Some 255)
   \<and> brightness self None = (Some (brightnessvalue self), self)"
  by (simp add: brightness_def Let_def)

theorem brightness_clamps_witness:
  "(0::int) < 1 \<and> brightness rgb3 (Some 0) = (None, rgb3\<lparr>brightnessvalue := 1\<rparr>)
   \<and> (255::int) < 300 \<and> brightness rgb3 (Some 300) = (None, rgb3\<lparr>brightnessvalue := 255\<rparr>)
   \<and> (1::int) \<le> 100 \<and> (100::int) \<le> 255
   \<and> brightness rgb3 (Some 100) = (None, rgb3\<lparr>brightnessvalue := 100\<rparr>)"
  using brightness_clamps [of 0 rgb3] brightness_clamps [of 300 rgb3]
    brightness_clamps [of 100 rgb3]
  by simp

text \<open>
  C7: \<^verbatim>\<open>brightness\<close> changes nothing but the brightness scalar. The packed words stay
  as they were written, whatever the argument, so a word read back after a change of
  brightness is still the one packed with the brightness in effect when
  \<^verbatim>\<open>set_pixel\<close> stored it, and \<^verbatim>\<open>show\<close> puts the same words as before the
  change.
\<close>

theorem brightness_keeps_pixels:
  "pixels (snd (brightness self arg)) = pixels self
   \<and> snd (brightness self arg)
       = self\<lparr>brightnessvalue := brightnessvalue (snd (brightness self arg))\<rparr>
   \<and> show_strip (snd (brightness self arg)) = show_strip self"
proof -
  have frame: "pixels (snd (brightness self arg)) = pixels self"
    "mode (snd (brightness self arg)) = mode self"
    "num_leds (snd (brightness self arg)) = num_leds self"
    "delay (snd (brightness self arg)) = delay self"
    by (simp_all add: brightness_def Let_def split: option.splits)
  have only: "snd (brightness self arg)
      = self\<lparr>brightnessvalue := brightnessvalue (snd (brightness self arg))\<rparr>"
    by (simp add: brightness_def Let_def split: option.splits)
  have puts: "show_strip (snd (brightness self arg)) = show_strip self"
    unfolding show_strip_def frame ..
  show ?thesis by (intro conjI frame(1) only puts)
qed

section \<open>Rotation\<close>

lemma rot_back:
  "a \<le> length xs \<Longrightarrow>
   drop (length xs - a) (drop a xs @ take a xs) @ take (length xs - a) (drop a xs @ take a xs) = xs"
  by simp

lemma slice_bound_le: "slice_bound xs n \<le> length xs"
  unfolding slice_bound_def Let_def by (cases "n < 0") simp_all

lemma slice_rot_length: "length (slice_from xs n @ slice_to xs n) = length xs"
  using slice_bound_le [of xs n] by (simp add: slice_from_def slice_to_def)

lemma slice_bound_neg:
  "length ys = length xs \<Longrightarrow>
   slice_bound ys (- n) = length xs - slice_bound xs n \<or>
   (slice_bound ys (- n) = 0 \<and> slice_bound xs n = 0)"
  unfolding slice_bound_def Let_def by (cases "n < 0"; cases "n = 0") auto

lemma slice_rot_inverse:
  "slice_from (slice_from xs n @ slice_to xs n) (- n) @
   slice_to (slice_from xs n @ slice_to xs n) (- n) = xs"
proof -
  define a where "a = slice_bound xs n"
  define ys where "ys = slice_from xs n @ slice_to xs n"
  have ys: "ys = drop a xs @ take a xs"
    by (simp add: ys_def a_def slice_from_def slice_to_def)
  have a: "a \<le> length xs" unfolding a_def by (rule slice_bound_le)
  have len: "length ys = length xs" unfolding ys_def by (rule slice_rot_length)
  have goal: "drop (slice_bound ys (- n)) ys @ take (slice_bound ys (- n)) ys = xs"
    using slice_bound_neg [OF len, of n]
  proof
    assume b: "slice_bound ys (- n) = length xs - slice_bound xs n"
    then have b': "slice_bound ys (- n) = length xs - a" by (simp add: a_def)
    show ?thesis unfolding b' unfolding ys by (rule rot_back [OF a])
  next
    assume b: "slice_bound ys (- n) = 0 \<and> slice_bound xs n = 0"
    then have b0: "slice_bound ys (- n) = 0" and a0: "a = 0" by (simp_all add: a_def)
    show ?thesis unfolding b0 unfolding ys a0 by simp
  qed
  then show ?thesis
    by (simp add: slice_from_def slice_to_def ys_def)
qed

text \<open>
  C6: for every buffer and every \<open>k\<close> with \<open>0 \<le> k \<le> num_leds\<close>,
  \<^verbatim>\<open>rotate_left(k)\<close> followed by \<^verbatim>\<open>rotate_right(k)\<close> gives the buffer back, word for
  word.
\<close>

theorem rotate_left_then_right:
  "0 \<le> k \<Longrightarrow> k \<le> num_leds self \<Longrightarrow>
   rotate_right (rotate_left self (Some k)) (Some k) = self"
  using slice_rot_inverse [of "pixels self" k]
  by (simp add: rotate_right_def rotate_left_def Let_def)

theorem rotate_left_then_right_witness:
  "(0::int) \<le> 2 \<and> 2 \<le> num_leds (rgb3\<lparr>pixels := [1, 2, 3]\<rparr>)
   \<and> pixels (rotate_left (rgb3\<lparr>pixels := [1, 2, 3]\<rparr>) (Some 2)) = [3, 1, 2]
   \<and> rotate_right (rotate_left (rgb3\<lparr>pixels := [1, 2, 3]\<rparr>) (Some 2)) (Some 2)
       = rgb3\<lparr>pixels := [1, 2, 3]\<rparr>"
  using rotate_left_then_right [of 2 "rgb3\<lparr>pixels := [1, 2, 3]\<rparr>"]
  by (simp add: rgb3_def rotate_left_def slice_from_def slice_to_def slice_bound_def Let_def)

section \<open>Construction\<close>

lemma str_index_Inr:
  "str_index m c = Inr k \<Longrightarrow> 0 \<le> k \<and> nat k < length m \<and> m ! nat k = c"
proof (induction m arbitrary: k)
  case Nil
  then show ?case by simp
next
  case (Cons x xs)
  show ?case
  proof (cases "x = c")
    case True
    with Cons.prems show ?thesis by simp
  next
    case False
    with Cons.prems obtain j where j: "str_index xs c = Inr j" and k: "k = j + 1"
      by (auto simp: bind_err_def split: sum.splits)
    from Cons.IH [OF j] k show ?thesis by (simp add: nat_add_distrib)
  qed
qed

lemma str_index_Inl: "str_index m c = Inl e \<Longrightarrow> e = ValueError \<and> c \<notin> set m"
  by (induction m) (auto simp: bind_err_def split: sum.splits if_splits)

lemma str_index_mem: "c \<in> set m \<Longrightarrow> \<exists>k. str_index m c = Inr k"
  by (cases "str_index m c") (auto dest: str_index_Inl)

lemma str_index_notmem: "c \<notin> set m \<Longrightarrow> str_index m c = Inl ValueError"
  by (cases "str_index m c") (auto dest: str_index_Inl str_index_Inr)

lemma shift_fail:
  "c \<notin> set m \<Longrightarrow> shift_rgb m c = Inl ValueError \<and> shift_rgbw m c = Inl ValueError"
  by (simp add: shift_rgb_def shift_rgbw_def bind_err_def str_index_notmem)

lemma shift_ok:
  assumes "c \<in> set m"
  shows "\<exists>k. str_index m c = Inr k \<and> shift_rgb m c = Inr (((k XOR 3) - 1) * 8)
            \<and> shift_rgbw m c = Inr ((k XOR 3) * 8)"
proof -
  from assms obtain k where "str_index m c = Inr k" using str_index_mem by blast
  then show ?thesis by (simp add: shift_rgb_def shift_rgbw_def bind_err_def)
qed

lemma init_rgbw:
  assumes "CHR ''W'' \<in> set m"
    and "shift_rgbw m CHR ''R'' = Inr r" and "shift_rgbw m CHR ''G'' = Inr g"
    and "shift_rgbw m CHR ''B'' = Inr b" and "shift_rgbw m CHR ''W'' = Inr w"
  shows "init n m dl = Inr \<lparr>pixels = replicate (nat n) 0, mode = set m, sm = sk6812,
           shift = [CHR ''R'' \<mapsto> r, CHR ''G'' \<mapsto> g, CHR ''B'' \<mapsto> b, CHR ''W'' \<mapsto> w],
           num_leds = n, delay = dl, brightnessvalue = 255\<rparr>"
  unfolding init_def Let_def using assms by (simp add: bind_err_def)

lemma init_rgb:
  assumes "CHR ''W'' \<notin> set m"
    and "shift_rgb m CHR ''R'' = Inr r" and "shift_rgb m CHR ''G'' = Inr g"
    and "shift_rgb m CHR ''B'' = Inr b"
  shows "init n m dl = Inr \<lparr>pixels = replicate (nat n) 0, mode = set m, sm = ws2812,
           shift = [CHR ''R'' \<mapsto> r, CHR ''G'' \<mapsto> g, CHR ''B'' \<mapsto> b, CHR ''W'' \<mapsto> 0],
           num_leds = n, delay = dl, brightnessvalue = 255\<rparr>"
  unfolding init_def Let_def using assms by (simp add: bind_err_def)

lemma init_missing:
  assumes "CHR ''R'' \<notin> set m \<or> CHR ''G'' \<notin> set m \<or> CHR ''B'' \<notin> set m"
  shows "init n m dl = Inl ValueError"
proof -
  have bind_l: "\<And>f. bind_err (Inl ValueError :: py_error + int) f
        = (Inl ValueError :: py_error + neopixel)"
    by (simp add: bind_err_def)
  have bind_r: "\<And>k f. bind_err (Inr k :: py_error + int) f = (f k :: py_error + neopixel)"
    by (simp add: bind_err_def)
  consider "CHR ''R'' \<notin> set m"
    | "CHR ''R'' \<in> set m" "CHR ''G'' \<notin> set m"
    | "CHR ''R'' \<in> set m" "CHR ''G'' \<in> set m" "CHR ''B'' \<notin> set m"
    using assms by blast
  then show ?thesis
  proof cases
    case 1
    from shift_fail [OF 1] show ?thesis
      unfolding init_def Let_def by (simp only: bind_l if_cancel)
  next
    case 2
    from shift_ok [OF 2(1)] obtain r where r: "shift_rgb m CHR ''R'' = Inr (((r XOR 3) - 1) * 8)"
      "shift_rgbw m CHR ''R'' = Inr ((r XOR 3) * 8)" by blast
    from shift_fail [OF 2(2)] r show ?thesis
      unfolding init_def Let_def by (simp only: bind_l bind_r if_cancel)
  next
    case 3
    from shift_ok [OF 3(1)] obtain r where r: "shift_rgb m CHR ''R'' = Inr (((r XOR 3) - 1) * 8)"
      "shift_rgbw m CHR ''R'' = Inr ((r XOR 3) * 8)" by blast
    from shift_ok [OF 3(2)] obtain g where g: "shift_rgb m CHR ''G'' = Inr (((g XOR 3) - 1) * 8)"
      "shift_rgbw m CHR ''G'' = Inr ((g XOR 3) * 8)" by blast
    from shift_fail [OF 3(3)] r g show ?thesis
      unfolding init_def Let_def by (simp only: bind_l bind_r if_cancel)
  qed
qed

text \<open>
  C3 does not hold of \<^verbatim>\<open>__init__\<close>, which validates neither argument: with
  \<^verbatim>\<open>num_leds = 0\<close> it builds an empty buffer, on which \<^verbatim>\<open>show\<close> runs and puts no
  word, and the mode string \<^verbatim>\<open>"RGBX"\<close>, no permutation of RGB or RGBW, is accepted.
\<close>

theorem init_accepts_counterexample:
  "init 0 ''RGB'' (1 / 10000) = Inr (rgb3\<lparr>pixels := [], num_leds := 0\<rparr>)
   \<and> show_strip (rgb3\<lparr>pixels := [], num_leds := 0\<rparr>) = Inr []
   \<and> init 3 ''RGBX'' (1 / 10000) = Inr (rgb3\<lparr>mode := {CHR ''R'', CHR ''G'', CHR ''B'', CHR ''X''}\<rparr>)"
  by (simp add: init_def shift_rgb_def bind_err_def rgb3_def show_strip_def Let_def
        numeral_3_eq_3)

text \<open>
  C3, amended: construction fails, with ValueError, whenever the mode string lacks one
  of the letters R, G and B. Every other mode string is accepted, whatever its other
  letters, and \<^verbatim>\<open>num_leds\<close> is not checked: the buffer has \<open>max 0 num_leds\<close> words,
  all zero, and the brightness 255.
\<close>

theorem init_fails_iff:
  "(CHR ''R'' \<notin> set m \<or> CHR ''G'' \<notin> set m \<or> CHR ''B'' \<notin> set m
      \<longrightarrow> init n m dl = Inl ValueError)
   \<and> (CHR ''R'' \<in> set m \<and> CHR ''G'' \<in> set m \<and> CHR ''B'' \<in> set m
      \<longrightarrow> (\<exists>s. init n m dl = Inr s \<and> pixels s = replicate (nat n) 0 \<and> num_leds s = n
                \<and> mode s = set m \<and> brightnessvalue s = 255))"
proof (intro conjI impI)
  assume "CHR ''R'' \<notin> set m \<or> CHR ''G'' \<notin> set m \<or> CHR ''B'' \<notin> set m"
  then show "init n m dl = Inl ValueError" by (rule init_missing)
next
  assume a: "CHR ''R'' \<in> set m \<and> CHR ''G'' \<in> set m \<and> CHR ''B'' \<in> set m"
  from a shift_ok [of "CHR ''R''" m] obtain r r' where
    r: "shift_rgb m CHR ''R'' = Inr r" "shift_rgbw m CHR ''R'' = Inr r'" by blast
  from a shift_ok [of "CHR ''G''" m] obtain g g' where
    g: "shift_rgb m CHR ''G'' = Inr g" "shift_rgbw m CHR ''G'' = Inr g'" by blast
  from a shift_ok [of "CHR ''B''" m] obtain b b' where
    b: "shift_rgb m CHR ''B'' = Inr b" "shift_rgbw m CHR ''B'' = Inr b'" by blast
  show "\<exists>s. init n m dl = Inr s \<and> pixels s = replicate (nat n) 0 \<and> num_leds s = n
                \<and> mode s = set m \<and> brightnessvalue s = 255"
  proof (cases "CHR ''W'' \<in> set m")
    case True
    with shift_ok [of "CHR ''W''" m] obtain w' where
      w: "shift_rgbw m CHR ''W'' = Inr w'" by blast
    show ?thesis
      unfolding init_rgbw [OF True r(2) g(2) b(2) w]
      by (intro exI conjI, rule refl) simp_all
  next
    case False
    show ?thesis
      unfolding init_rgb [OF False r(1) g(1) b(1)]
      by (intro exI conjI, rule refl) simp_all
  qed
qed

theorem init_fails_iff_witness:
  "CHR ''R'' \<notin> set ''XGB''
   \<and> init 3 ''XGB'' (1 / 10000) = Inl ValueError
   \<and> CHR ''R'' \<in> set ''BRG'' \<and> CHR ''G'' \<in> set ''BRG'' \<and> CHR ''B'' \<in> set ''BRG''
   \<and> (\<exists>s. init 0 ''BRG'' (1 / 10000) = Inr s \<and> pixels s = [] \<and> num_leds s = 0
          \<and> mode s = set ''BRG'' \<and> brightnessvalue s = 255)"
  using init_fails_iff [of "''XGB''" 3 "1 / 10000"] init_fails_iff [of "''BRG''" 0 "1 / 10000"]
  by simp

section \<open>Rotation offsets\<close>

lemma slice_rot_spec:
  assumes "- int (length xs) \<le> k" and "k \<le> int (length xs)"
  shows "slice_from xs k @ slice_to xs k = rotate (nat (k mod int (length xs))) xs"
proof -
  define L where "L = length xs"
  consider "k = int L" | "k = - int L" | "0 \<le> k" "k < int L" | "- int L < k" "k < 0"
    using assms unfolding L_def by linarith
  then show ?thesis
  proof cases
    case 1
    then show ?thesis
      by (simp add: slice_from_def slice_to_def slice_bound_def Let_def L_def)
  next
    case 2
    then show ?thesis
      by (simp add: slice_from_def slice_to_def slice_bound_def Let_def L_def)
  next
    case 3
    then have m: "k mod int (length xs) = k" by (simp add: L_def)
    from 3 have b: "slice_bound xs k = nat k"
      by (simp add: slice_bound_def Let_def L_def)
    from 3 have lt: "nat k < length xs" by (simp add: L_def)
    show ?thesis
      unfolding m slice_from_def slice_to_def b rotate_drop_take
      using lt by simp
  next
    case 4
    then have "(k + int (length xs)) mod int (length xs) = k + int (length xs)"
      by (intro mod_pos_pos_trivial) (simp_all add: L_def)
    then have m: "k mod int (length xs) = k + int (length xs)"
      by (simp only: mod_add_self2)
    from 4 have b: "slice_bound xs k = nat (k + int (length xs))"
      by (simp add: slice_bound_def Let_def L_def)
    from 4 have lt: "nat (k + int (length xs)) < length xs" by (simp add: L_def)
    show ?thesis
      unfolding m slice_from_def slice_to_def b rotate_drop_take
      using lt by simp
  qed
qed

lemma slice_rot_out:
  assumes "k < - int (length xs) \<or> int (length xs) < k"
  shows "slice_from xs k @ slice_to xs k = xs"
  using assms by (auto simp: slice_from_def slice_to_def slice_bound_def Let_def)

text \<open>
  C2 does not hold of \<^verbatim>\<open>rotate_left\<close> and \<^verbatim>\<open>rotate_right\<close>: on a buffer of three
  words an offset of 0 leaves the words in place where an offset of 1 moves them, and
  the offsets 4 (left) and \<open>-4\<close> (right), beyond the length, leave them in place where
  the rotation by the offset modulo 3 moves them.
\<close>

theorem rotate_offsets_counterexample:
  "pixels (rotate_left (rgb3\<lparr>pixels := [1, 2, 3]\<rparr>) (Some 0)) = [1, 2, 3]
   \<and> pixels (rotate_left (rgb3\<lparr>pixels := [1, 2, 3]\<rparr>) (Some 1)) = [2, 3, 1]
   \<and> pixels (rotate_left (rgb3\<lparr>pixels := [1, 2, 3]\<rparr>) (Some 4)) = [1, 2, 3]
   \<and> spec_rotate_left 4 [1, 2, 3 :: int] = [2, 3, 1]
   \<and> pixels (rotate_right (rgb3\<lparr>pixels := [1, 2, 3]\<rparr>) (Some (- 4))) = [1, 2, 3]
   \<and> spec_rotate_right (- 4) [1, 2, 3 :: int] = [2, 3, 1]"
  by (simp add: rotate_left_def rotate_right_def slice_from_def slice_to_def slice_bound_def
        Let_def spec_rotate_left_def spec_rotate_right_def rotate_drop_take)

text \<open>
  C2, amended: an offset of \<^verbatim>\<open>None\<close> behaves as an offset of 1; an offset of 0 leaves
  the buffer as it is; an offset \<open>k\<close> with \<open>- num_leds \<le> k \<le> num_leds\<close> gives the
  word sequence rotated by \<open>k\<close> modulo \<open>num_leds\<close>; an offset beyond \<open>num_leds\<close> on
  either side leaves the buffer as it is. The hypothesis is what construction
  establishes and every operation keeps: the array has \<open>num_leds\<close> words.
\<close>

theorem rotate_offsets:
  assumes "int (length (pixels self)) = num_leds self"
  shows "rotate_left self None = rotate_left self (Some 1)
   \<and> rotate_right self None = rotate_right self (Some 1)
   \<and> rotate_left self (Some 0) = self \<and> rotate_right self (Some 0) = self
   \<and> (- num_leds self \<le> k \<and> k \<le> num_leds self \<longrightarrow>
        pixels (rotate_left self (Some k)) = spec_rotate_left k (pixels self)
        \<and> pixels (rotate_right self (Some k)) = spec_rotate_right k (pixels self))
   \<and> (k < - num_leds self \<or> num_leds self < k \<longrightarrow>
        rotate_left self (Some k) = self \<and> rotate_right self (Some k) = self)"
proof -
  let ?xs = "pixels self"
  have none: "rotate_left self None = rotate_left self (Some 1)"
    "rotate_right self None = rotate_right self (Some 1)"
    by (simp_all add: rotate_left_def rotate_right_def)
  have zero: "rotate_left self (Some 0) = self" "rotate_right self (Some 0) = self"
    by (simp_all add: rotate_left_def rotate_right_def slice_from_def slice_to_def
          slice_bound_def Let_def)
  have inr: "pixels (rotate_left self (Some k)) = spec_rotate_left k ?xs
        \<and> pixels (rotate_right self (Some k)) = spec_rotate_right k ?xs"
    if "- num_leds self \<le> k \<and> k \<le> num_leds self"
  proof -
    from that assms have l: "- int (length ?xs) \<le> k" "k \<le> int (length ?xs)"
      and r: "- int (length ?xs) \<le> - k" "- k \<le> int (length ?xs)" by simp_all
    show ?thesis
      using slice_rot_spec [OF l] slice_rot_spec [OF r]
      by (simp add: rotate_left_def rotate_right_def Let_def spec_rotate_left_def
            spec_rotate_right_def)
  qed
  have out: "rotate_left self (Some k) = self \<and> rotate_right self (Some k) = self"
    if "k < - num_leds self \<or> num_leds self < k"
  proof -
    from that assms have l: "k < - int (length ?xs) \<or> int (length ?xs) < k"
      and r: "- k < - int (length ?xs) \<or> int (length ?xs) < - k" by auto
    show ?thesis
      using slice_rot_out [OF l] slice_rot_out [OF r]
      by (simp add: rotate_left_def rotate_right_def Let_def)
  qed
  from none zero inr out show ?thesis by blast
qed

theorem rotate_offsets_witness:
  "int (length (pixels (rgb3\<lparr>pixels := [1, 2, 3]\<rparr>))) = num_leds (rgb3\<lparr>pixels := [1, 2, 3]\<rparr>)
   \<and> pixels (rotate_left (rgb3\<lparr>pixels := [1, 2, 3]\<rparr>) (Some (- 1))) = spec_rotate_left (- 1) [1, 2, 3]
   \<and> pixels (rotate_right (rgb3\<lparr>pixels := [1, 2, 3]\<rparr>) (Some (- 1))) = spec_rotate_right (- 1) [1, 2, 3]
   \<and> rotate_left (rgb3\<lparr>pixels := [1, 2, 3]\<rparr>) (Some 5) = rgb3\<lparr>pixels := [1, 2, 3]\<rparr>
   \<and> rotate_right (rgb3\<lparr>pixels := [1, 2, 3]\<rparr>) (Some 5) = rgb3\<lparr>pixels := [1, 2, 3]\<rparr>"
proof -
  have h: "int (length (pixels (rgb3\<lparr>pixels := [1, 2, 3]\<rparr>))) = num_leds (rgb3\<lparr>pixels := [1, 2, 3]\<rparr>)"
    by (simp add: rgb3_def)
  have n: "num_leds (rgb3\<lparr>pixels := [1, 2, 3]\<rparr>) = 3" by (simp add: rgb3_def)
  show ?thesis
    using h rotate_offsets [OF h, of "- 1"] rotate_offsets [OF h, of 5]
    by (simp add: n)
qed

section \<open>Setting a pixel\<close>

subsection \<open>What set\_pixel computes\<close>

lemma set_pixel_unfold:
  assumes "shift self CHR ''R'' = Some sr" and "shift self CHR ''G'' = Some sg"
    and "shift self CHR ''B'' = Some sb" and "shift self CHR ''W'' = Some sw"
    and "0 \<le> sr" and "0 \<le> sg" and "0 \<le> sb" and "0 \<le> sw"
    and "3 \<le> length c"
  shows "set_pixel self i c =
    bind_err (array_setitem (pixels self) i
      (push_bit (nat sw)
          (if length c = 4 \<and> CHR ''W'' \<in> mode self
           then py_round (of_int (c ! 3) * (of_int (brightnessvalue self) / 255)) else 0)
       OR push_bit (nat sb) (py_round (of_int (c ! 2) * (of_int (brightnessvalue self) / 255)))
       OR push_bit (nat sr) (py_round (of_int (c ! 0) * (of_int (brightnessvalue self) / 255)))
       OR push_bit (nat sg) (py_round (of_int (c ! 1) * (of_int (brightnessvalue self) / 255)))))
      (\<lambda>px. Inr (self\<lparr>pixels := px\<rparr>))"
proof -
  have sc: "\<And>k. k < length c \<Longrightarrow> scale_channel self c k
      = Inr (py_round (of_int (c ! k) * (of_int (brightnessvalue self) / 255)))"
    by (simp add: scale_channel_def tuple_getitem_def brightness_def bind_err_def)
  have sh: "\<And>v. shifted (shift self) v CHR ''R'' = Inr (push_bit (nat sr) v)"
    "\<And>v. shifted (shift self) v CHR ''G'' = Inr (push_bit (nat sg) v)"
    "\<And>v. shifted (shift self) v CHR ''B'' = Inr (push_bit (nat sb) v)"
    "\<And>v. shifted (shift self) v CHR ''W'' = Inr (push_bit (nat sw) v)"
    using assms by (simp_all add: shifted_def dict_getitem_def py_lshift_def bind_err_def)
  have pk: "\<And>w b r g. pack (shift self) w b r g
      = Inr (push_bit (nat sw) w OR push_bit (nat sb) b OR push_bit (nat sr) r
             OR push_bit (nat sg) g)"
    by (simp add: pack_def sh bind_err_def)
  from assms(9) have l: "0 < length c" "1 < length c" "2 < length c" by linarith+
  show ?thesis
  proof (cases "length c = 4 \<and> CHR ''W'' \<in> mode self")
    case True
    then have "3 < length c" by simp
    with True l show ?thesis
      unfolding set_pixel_def Let_def by (simp add: sc pk bind_err_def)
  next
    case False
    with l show ?thesis
      unfolding set_pixel_def Let_def by (auto simp: sc pk bind_err_def)
  qed
qed

lemma set_pixel_short:
  assumes "length c < 3"
  shows "set_pixel self i c = Inl IndexError"
proof -
  have sc: "\<And>k. k < length c \<Longrightarrow> \<exists>v. scale_channel self c k = Inr v"
    by (simp add: scale_channel_def tuple_getitem_def brightness_def bind_err_def)
  have sf: "\<And>k. \<not> k < length c \<Longrightarrow> scale_channel self c k = Inl IndexError"
    by (simp add: scale_channel_def tuple_getitem_def bind_err_def)
  consider "length c = 0" | "length c = 1" | "length c = 2" using assms by linarith
  then show ?thesis
  proof cases
    case 1
    with sf [of 0] show ?thesis unfolding set_pixel_def Let_def by (simp add: bind_err_def)
  next
    case 2
    with sc [of 0] sf [of 1] show ?thesis
      unfolding set_pixel_def Let_def by (auto simp: bind_err_def)
  next
    case 3
    with sc [of 0] sc [of 1] sf [of 2] show ?thesis
      unfolding set_pixel_def Let_def by (auto simp: bind_err_def)
  qed
qed


lemma xor_3: "0 \<le> k \<Longrightarrow> k \<le> 3 \<Longrightarrow> k XOR 3 = 3 - (k::int)"
proof -
  assume "0 \<le> k" "k \<le> 3"
  then consider "k = 0" | "k = 1" | "k = 2" | "k = 3" by linarith
  then show ?thesis by cases simp_all
qed

lemma str_index_nat:
  assumes "c \<in> set m"
  shows "\<exists>k < length m. str_index m c = Inr (int k) \<and> m ! k = c"
proof -
  from assms obtain j where j: "str_index m c = Inr j" using str_index_mem by blast
  from str_index_Inr [OF j] have "0 \<le> j" "nat j < length m" "m ! nat j = c" by simp_all
  with j show ?thesis by (intro exI [of _ "nat j"]) simp
qed

lemma valid_mode_cases:
  assumes "valid_mode m"
  shows "(length m = 3 \<and> set m = {CHR ''R'', CHR ''G'', CHR ''B''} \<and> CHR ''W'' \<notin> set m)
    \<or> (length m = 4 \<and> set m = {CHR ''R'', CHR ''G'', CHR ''B'', CHR ''W''} \<and> CHR ''W'' \<in> set m)"
proof -
  from assms consider
      "length m = 3" "set m = {CHR ''R'', CHR ''G'', CHR ''B''}"
    | "length m = 4" "set m = {CHR ''R'', CHR ''G'', CHR ''B'', CHR ''W''}"
    unfolding valid_mode_def by blast
  then show ?thesis
  proof cases
    case 1
    have "CHR ''W'' \<notin> {CHR ''R'', CHR ''G'', CHR ''B''}" by simp
    with 1 show ?thesis by (simp only: simp_thms)
  next
    case 2
    have "CHR ''W'' \<in> {CHR ''R'', CHR ''G'', CHR ''B'', CHR ''W''}" by simp
    with 2 show ?thesis by (simp only: simp_thms)
  qed
qed

subsection \<open>The shifts of a supported mode\<close>

lemma index_distinct:
  "m ! j = a \<Longrightarrow> m ! k = b \<Longrightarrow> a \<noteq> b \<Longrightarrow> j \<noteq> k"
  by blast

lemma shift_rgb_at:
  assumes "str_index m c = Inr (int k)" and "k < 3"
  shows "shift_rgb m c = Inr (int (8 * (2 - k)))"
proof -
  from assms(2) have "int k XOR 3 = 3 - int k" by (intro xor_3) simp_all
  moreover from assms(2) have "(3 - int k - 1) * 8 = int (8 * (2 - k))" by simp
  ultimately show ?thesis using assms(1) by (simp add: shift_rgb_def bind_err_def)
qed

lemma shift_rgbw_at:
  assumes "str_index m c = Inr (int k)" and "k < 4"
  shows "shift_rgbw m c = Inr (int (8 * (3 - k)))"
proof -
  from assms(2) have "int k XOR 3 = 3 - int k" by (intro xor_3) simp_all
  moreover from assms(2) have "(3 - int k) * 8 = int (8 * (3 - k))" by simp
  ultimately show ?thesis using assms(1) by (simp add: shift_rgbw_def bind_err_def)
qed

lemma valid_mode_rgb:
  assumes "length m = 3" and "set m = {CHR ''R'', CHR ''G'', CHR ''B''}"
    and "CHR ''W'' \<notin> set m"
  shows "\<exists>pr pg pb. pr < 3 \<and> pg < 3 \<and> pb < 3 \<and> pr \<noteq> pg \<and> pr \<noteq> pb \<and> pg \<noteq> pb
    \<and> init n m dl = Inr \<lparr>pixels = replicate (nat n) 0, mode = set m, sm = ws2812,
           shift = [CHR ''R'' \<mapsto> int (8 * pr), CHR ''G'' \<mapsto> int (8 * pg),
                    CHR ''B'' \<mapsto> int (8 * pb), CHR ''W'' \<mapsto> 0],
           num_leds = n, delay = dl, brightnessvalue = 255\<rparr>"
proof -
  have "CHR ''R'' \<in> set m" "CHR ''G'' \<in> set m" "CHR ''B'' \<in> set m"
    unfolding assms(2) by simp_all
  then obtain kr kg kb where
    kr: "kr < length m" "str_index m CHR ''R'' = Inr (int kr)" "m ! kr = CHR ''R''" and
    kg: "kg < length m" "str_index m CHR ''G'' = Inr (int kg)" "m ! kg = CHR ''G''" and
    kb: "kb < length m" "str_index m CHR ''B'' = Inr (int kb)" "m ! kb = CHR ''B''"
    using str_index_nat by metis
  have c: "CHR ''R'' \<noteq> CHR ''G''" "CHR ''R'' \<noteq> CHR ''B''" "CHR ''G'' \<noteq> CHR ''B''"
    by simp_all
  have ne: "kr \<noteq> kg" "kr \<noteq> kb" "kg \<noteq> kb"
    using index_distinct [OF kr(3) kg(3) c(1)] index_distinct [OF kr(3) kb(3) c(2)]
      index_distinct [OF kg(3) kb(3) c(3)] by simp_all
  from kr(1) kg(1) kb(1) have lt: "kr < 3" "kg < 3" "kb < 3" unfolding assms(1) by simp_all
  have eq: "init n m dl = Inr \<lparr>pixels = replicate (nat n) 0, mode = set m, sm = ws2812,
           shift = [CHR ''R'' \<mapsto> int (8 * (2 - kr)), CHR ''G'' \<mapsto> int (8 * (2 - kg)),
                    CHR ''B'' \<mapsto> int (8 * (2 - kb)), CHR ''W'' \<mapsto> 0],
           num_leds = n, delay = dl, brightnessvalue = 255\<rparr>"
    by (rule init_rgb [OF assms(3) shift_rgb_at [OF kr(2) lt(1)]
          shift_rgb_at [OF kg(2) lt(2)] shift_rgb_at [OF kb(2) lt(3)]])
  from lt ne have p: "2 - kr < 3" "2 - kg < 3" "2 - kb < 3"
    "2 - kr \<noteq> 2 - kg" "2 - kr \<noteq> 2 - kb" "2 - kg \<noteq> 2 - kb" by linarith+
  from p eq show ?thesis by blast
qed

lemma valid_mode_rgbw:
  assumes "length m = 4" and "set m = {CHR ''R'', CHR ''G'', CHR ''B'', CHR ''W''}"
    and "CHR ''W'' \<in> set m"
  shows "\<exists>pr pg pb pw. pr < 4 \<and> pg < 4 \<and> pb < 4 \<and> pw < 4
    \<and> pr \<noteq> pg \<and> pr \<noteq> pb \<and> pg \<noteq> pb \<and> pw \<noteq> pr \<and> pw \<noteq> pg \<and> pw \<noteq> pb
    \<and> init n m dl = Inr \<lparr>pixels = replicate (nat n) 0, mode = set m, sm = sk6812,
           shift = [CHR ''R'' \<mapsto> int (8 * pr), CHR ''G'' \<mapsto> int (8 * pg),
                    CHR ''B'' \<mapsto> int (8 * pb), CHR ''W'' \<mapsto> int (8 * pw)],
           num_leds = n, delay = dl, brightnessvalue = 255\<rparr>"
proof -
  have "CHR ''R'' \<in> set m" "CHR ''G'' \<in> set m" "CHR ''B'' \<in> set m"
    unfolding assms(2) by simp_all
  with assms(3) obtain kr kg kb kw where
    kr: "kr < length m" "str_index m CHR ''R'' = Inr (int kr)" "m ! kr = CHR ''R''" and
    kg: "kg < length m" "str_index m CHR ''G'' = Inr (int kg)" "m ! kg = CHR ''G''" and
    kb: "kb < length m" "str_index m CHR ''B'' = Inr (int kb)" "m ! kb = CHR ''B''" and
    kw: "kw < length m" "str_index m CHR ''W'' = Inr (int kw)" "m ! kw = CHR ''W''"
    using str_index_nat by metis
  have c: "CHR ''R'' \<noteq> CHR ''G''" "CHR ''R'' \<noteq> CHR ''B''" "CHR ''G'' \<noteq> CHR ''B''"
    "CHR ''W'' \<noteq> CHR ''R''" "CHR ''W'' \<noteq> CHR ''G''" "CHR ''W'' \<noteq> CHR ''B''"
    by simp_all
  have ne: "kr \<noteq> kg" "kr \<noteq> kb" "kg \<noteq> kb" "kw \<noteq> kr" "kw \<noteq> kg" "kw \<noteq> kb"
    using index_distinct [OF kr(3) kg(3) c(1)] index_distinct [OF kr(3) kb(3) c(2)]
      index_distinct [OF kg(3) kb(3) c(3)] index_distinct [OF kw(3) kr(3) c(4)]
      index_distinct [OF kw(3) kg(3) c(5)] index_distinct [OF kw(3) kb(3) c(6)]
    by simp_all
  from kr(1) kg(1) kb(1) kw(1) have lt: "kr < 4" "kg < 4" "kb < 4" "kw < 4"
    unfolding assms(1) by simp_all
  have eq: "init n m dl = Inr \<lparr>pixels = replicate (nat n) 0, mode = set m, sm = sk6812,
           shift = [CHR ''R'' \<mapsto> int (8 * (3 - kr)), CHR ''G'' \<mapsto> int (8 * (3 - kg)),
                    CHR ''B'' \<mapsto> int (8 * (3 - kb)), CHR ''W'' \<mapsto> int (8 * (3 - kw))],
           num_leds = n, delay = dl, brightnessvalue = 255\<rparr>"
    by (rule init_rgbw [OF assms(3) shift_rgbw_at [OF kr(2) lt(1)]
          shift_rgbw_at [OF kg(2) lt(2)] shift_rgbw_at [OF kb(2) lt(3)]
          shift_rgbw_at [OF kw(2) lt(4)]])
  from lt ne have p: "3 - kr < 4" "3 - kg < 4" "3 - kb < 4" "3 - kw < 4"
    "3 - kr \<noteq> 3 - kg" "3 - kr \<noteq> 3 - kb" "3 - kg \<noteq> 3 - kb"
    "3 - kw \<noteq> 3 - kr" "3 - kw \<noteq> 3 - kg" "3 - kw \<noteq> 3 - kb" by linarith+
  from p eq show ?thesis by blast
qed

lemma and_255: "(x::int) AND 255 = take_bit 8 x"
proof -
  have "(255::int) = mask 8" by (simp add: mask_eq_exp_minus_1)
  then show ?thesis by (simp only: take_bit_eq_mask)
qed

lemma lane_push:
  assumes "0 \<le> v" and "v < 256"
  shows "take_bit 8 (drop_bit (8 * p) (push_bit (8 * q) (v::int))) = (if p = q then v else 0)"
proof -
  consider "p = q" | "p < q" | "q < p" by linarith
  then show ?thesis
  proof cases
    case 1
    from assms have "take_bit 8 v = v" by (simp add: take_bit_int_eq_self)
    with 1 show ?thesis by (simp add: drop_bit_push_bit)
  next
    case 2
    then have d: "8 * q - 8 * p \<ge> 8" by simp
    from 2 have "drop_bit (8 * p) (push_bit (8 * q) v) = push_bit (8 * q - 8 * p) v"
      by (simp add: drop_bit_push_bit)
    moreover from d have "take_bit 8 (push_bit (8 * q - 8 * p) v) = 0"
      by (simp add: take_bit_push_bit)
    ultimately show ?thesis using 2 by simp
  next
    case 3
    then have d: "8 \<le> 8 * p - 8 * q" by simp
    from 3 have e: "drop_bit (8 * p) (push_bit (8 * q) v) = drop_bit (8 * p - 8 * q) v"
      by (simp add: drop_bit_push_bit)
    have "v < 2 ^ (8 * p - 8 * q)"
    proof -
      have "(2::int) ^ 8 \<le> 2 ^ (8 * p - 8 * q)" using d by (intro power_increasing) simp_all
      with assms(2) show ?thesis by simp
    qed
    with assms(1) have "drop_bit (8 * p - 8 * q) v = 0"
      by (simp add: drop_bit_eq_div)
    with e 3 show ?thesis by simp
  qed
qed

lemma scale_bounds:
  assumes "0 \<le> (c::int)" and "c \<le> 255" and "1 \<le> (b::int)" and "b \<le> 255"
  shows "0 \<le> (2 * (c * b) + 255) div 510" and "(2 * (c * b) + 255) div 510 < 256"
proof -
  from assms have cb0: "0 \<le> c * b" by simp
  then show "0 \<le> (2 * (c * b) + 255) div 510" by simp
  from assms have "c * b \<le> 255 * b" by (intro mult_right_mono) simp_all
  with assms have "c * b \<le> 255 * 255" by linarith
  then have "2 * (c * b) + 255 < 510 * 256" by simp
  then show "(2 * (c * b) + 255) div 510 < 256" by simp
qed

lemma py_round_div_255: "py_round (of_int n / 255) = (2 * n + 255) div 510"
proof -
  define q where "q = n div 255"
  define r where "r = n mod 255"
  have n: "n = 255 * q + r" and r: "0 \<le> r" "r < 255"
    by (simp_all add: q_def r_def)
  have x: "(of_int n / 255 :: rat) = of_int q + of_int r / 255"
    by (simp add: n)
  have fl: "\<lfloor>(of_int n / 255 :: rat)\<rfloor> = q"
    using floor_divide_of_int_eq [of n 255, where ?'a = rat] by (simp add: q_def)
  have d: "(of_int n / 255 :: rat) - of_int q = of_int r / 255"
    by (simp add: x)
  have lt: "(of_int r / 255 :: rat) < 1 / 2 \<longleftrightarrow> 2 * r < 255"
  proof -
    have "(of_int r / 255 :: rat) < 1 / 2 \<longleftrightarrow> (of_int (2 * r) :: rat) < of_int 255"
      by (simp add: field_simps)
    also have "\<dots> \<longleftrightarrow> 2 * r < 255" by (simp only: of_int_less_iff)
    finally show ?thesis .
  qed
  have gt: "(1 / 2 :: rat) < of_int r / 255 \<longleftrightarrow> 255 < 2 * r"
  proof -
    have "(1 / 2 :: rat) < of_int r / 255 \<longleftrightarrow> (of_int 255 :: rat) < of_int (2 * r)"
      by (simp add: field_simps)
    also have "\<dots> \<longleftrightarrow> 255 < 2 * r" by (simp only: of_int_less_iff)
    finally show ?thesis .
  qed
  have ne: "2 * r \<noteq> 255" by presburger
  have rhs: "(2 * n + 255) div 510 = (if 2 * r < 255 then q else q + 1)"
  proof (cases "2 * r < 255")
    case True
    have "(2 * n + 255) = 510 * q + (2 * r + 255)" by (simp add: n)
    moreover have "(510 * q + (2 * r + 255)) div 510 = q"
      using True r by (simp add: div_pos_pos_trivial)
    ultimately show ?thesis using True by simp
  next
    case False
    have "(2 * n + 255) = 510 * (q + 1) + (2 * r - 255)" by (simp add: n)
    moreover have "(510 * (q + 1) + (2 * r - 255)) div 510 = q + 1"
      using False r by (simp add: div_pos_pos_trivial)
    ultimately show ?thesis using False by simp
  qed
  show ?thesis
    unfolding py_round_def Let_def fl d lt gt rhs using ne by auto
qed

lemma scale_exact: "py_round (of_int c * (of_int b / 255)) = (2 * (c * b) + 255) div 510"
proof -
  have "(of_int c * (of_int b / 255) :: rat) = of_int (c * b) / 255" by simp
  then show ?thesis by (simp only: py_round_div_255)
qed

lemma spec_scale_exact: "spec_scale c b = (2 * (c * b) + 255) div 510"
  unfolding spec_scale_def by (rule py_round_div_255)

lemma valid_init:
  assumes "valid_mode m" and "init n m dl = Inr s0"
  obtains pr pg pb pw where
    "shift s0 CHR ''R'' = Some (int (8 * pr))" "shift s0 CHR ''G'' = Some (int (8 * pg))"
    "shift s0 CHR ''B'' = Some (int (8 * pb))" "shift s0 CHR ''W'' = Some (int (8 * pw))"
    "pr < 4" "pg < 4" "pb < 4" "pw < 4" "pr \<noteq> pg" "pr \<noteq> pb" "pg \<noteq> pb"
    "CHR ''W'' \<in> mode s0 \<longrightarrow> pw \<noteq> pr \<and> pw \<noteq> pg \<and> pw \<noteq> pb"
    "CHR ''W'' \<notin> mode s0 \<longrightarrow> pw = 0 \<and> pr < 3 \<and> pg < 3 \<and> pb < 3"
    "mode s0 = set m" "pixels s0 = replicate (nat n) 0" "num_leds s0 = n"
    "brightnessvalue s0 = 255"
proof -
  from valid_mode_cases [OF assms(1)] show ?thesis
  proof (elim disjE conjE)
    assume a: "length m = 3" "set m = {CHR ''R'', CHR ''G'', CHR ''B''}" "CHR ''W'' \<notin> set m"
    from valid_mode_rgb [OF a, of n dl] obtain pr pg pb where
      p: "pr < 3" "pg < 3" "pb < 3" "pr \<noteq> pg" "pr \<noteq> pb" "pg \<noteq> pb" and
      e: "init n m dl = Inr \<lparr>pixels = replicate (nat n) 0, mode = set m, sm = ws2812,
           shift = [CHR ''R'' \<mapsto> int (8 * pr), CHR ''G'' \<mapsto> int (8 * pg),
                    CHR ''B'' \<mapsto> int (8 * pb), CHR ''W'' \<mapsto> 0],
           num_leds = n, delay = dl, brightnessvalue = 255\<rparr>" by blast
    from e assms(2) have s0: "s0 = \<lparr>pixels = replicate (nat n) 0, mode = set m, sm = ws2812,
           shift = [CHR ''R'' \<mapsto> int (8 * pr), CHR ''G'' \<mapsto> int (8 * pg),
                    CHR ''B'' \<mapsto> int (8 * pb), CHR ''W'' \<mapsto> 0],
           num_leds = n, delay = dl, brightnessvalue = 255\<rparr>" by simp
    show ?thesis
    proof (rule that [of pr pg pb 0])
      show "shift s0 CHR ''R'' = Some (int (8 * pr))" "shift s0 CHR ''G'' = Some (int (8 * pg))"
        "shift s0 CHR ''B'' = Some (int (8 * pb))" "shift s0 CHR ''W'' = Some (int (8 * 0))"
        by (simp_all add: s0)
      show "pr < 4" "pg < 4" "pb < 4" "(0::nat) < 4" using p by simp_all
      show "pr \<noteq> pg" "pr \<noteq> pb" "pg \<noteq> pb" using p by simp_all
      show "CHR ''W'' \<in> mode s0 \<longrightarrow> 0 \<noteq> pr \<and> 0 \<noteq> pg \<and> 0 \<noteq> pb" using a(3) by (simp add: s0)
      show "CHR ''W'' \<notin> mode s0 \<longrightarrow> (0::nat) = 0 \<and> pr < 3 \<and> pg < 3 \<and> pb < 3" using p by simp
      show "mode s0 = set m" "pixels s0 = replicate (nat n) 0" "num_leds s0 = n"
        "brightnessvalue s0 = 255" by (simp_all add: s0)
    qed
  next
    assume a: "length m = 4" "set m = {CHR ''R'', CHR ''G'', CHR ''B'', CHR ''W''}"
      "CHR ''W'' \<in> set m"
    from valid_mode_rgbw [OF a, of n dl] obtain pr pg pb pw where
      p: "pr < 4" "pg < 4" "pb < 4" "pw < 4" "pr \<noteq> pg" "pr \<noteq> pb" "pg \<noteq> pb"
         "pw \<noteq> pr" "pw \<noteq> pg" "pw \<noteq> pb" and
      e: "init n m dl = Inr \<lparr>pixels = replicate (nat n) 0, mode = set m, sm = sk6812,
           shift = [CHR ''R'' \<mapsto> int (8 * pr), CHR ''G'' \<mapsto> int (8 * pg),
                    CHR ''B'' \<mapsto> int (8 * pb), CHR ''W'' \<mapsto> int (8 * pw)],
           num_leds = n, delay = dl, brightnessvalue = 255\<rparr>" by blast
    from e assms(2) have s0: "s0 = \<lparr>pixels = replicate (nat n) 0, mode = set m, sm = sk6812,
           shift = [CHR ''R'' \<mapsto> int (8 * pr), CHR ''G'' \<mapsto> int (8 * pg),
                    CHR ''B'' \<mapsto> int (8 * pb), CHR ''W'' \<mapsto> int (8 * pw)],
           num_leds = n, delay = dl, brightnessvalue = 255\<rparr>" by simp
    show ?thesis
    proof (rule that [of pr pg pb pw])
      show "shift s0 CHR ''R'' = Some (int (8 * pr))" "shift s0 CHR ''G'' = Some (int (8 * pg))"
        "shift s0 CHR ''B'' = Some (int (8 * pb))" "shift s0 CHR ''W'' = Some (int (8 * pw))"
        by (simp_all add: s0)
      show "pr < 4" "pg < 4" "pb < 4" "pw < 4" using p by simp_all
      show "pr \<noteq> pg" "pr \<noteq> pb" "pg \<noteq> pb" using p by simp_all
      show "CHR ''W'' \<in> mode s0 \<longrightarrow> pw \<noteq> pr \<and> pw \<noteq> pg \<and> pw \<noteq> pb" using p by simp
      show "CHR ''W'' \<notin> mode s0 \<longrightarrow> pw = 0 \<and> pr < 3 \<and> pg < 3 \<and> pb < 3"
        using a(3) by (simp add: s0)
      show "mode s0 = set m" "pixels s0 = replicate (nat n) 0" "num_leds s0 = n"
        "brightnessvalue s0 = 255" by (simp_all add: s0)
    qed
  qed
qed

lemma array_setitem_out:
  "i < - int (length a) \<or> int (length a) \<le> i \<Longrightarrow> array_setitem a i v = Inl IndexError"
  by (auto simp: array_setitem_def Let_def)

lemma array_setitem_neg:
  "- int (length a) \<le> i \<Longrightarrow> i < 0 \<Longrightarrow>
   array_setitem a i v = array_setitem a (i + int (length a)) v"
  by (simp add: array_setitem_def Let_def)

lemma init_rgb3: "init 3 ''RGB'' (1 / 10000) = Inr rgb3"
  by (simp add: init_def shift_rgb_def bind_err_def rgb3_def Let_def numeral_3_eq_3)

lemma valid_mode_RGB: "valid_mode ''RGB''"
  by (simp add: valid_mode_def)

lemma set_pixel_word:
  assumes "shift self CHR ''R'' = Some sr" and "shift self CHR ''G'' = Some sg"
    and "shift self CHR ''B'' = Some sb" and "shift self CHR ''W'' = Some sw"
    and "0 \<le> sr" and "0 \<le> sg" and "0 \<le> sb" and "0 \<le> sw"
    and "3 \<le> length c"
  shows "\<exists>w. \<forall>i. set_pixel self i c =
    bind_err (array_setitem (pixels self) i w) (\<lambda>px. Inr (self\<lparr>pixels := px\<rparr>))"
  using set_pixel_unfold [OF assms] by blast

lemma set_pixel_valid:
  assumes "valid_mode m" and "init n m dl = Inr s0" and "3 \<le> length c"
  shows "\<exists>w. \<forall>i. set_pixel (s0\<lparr>pixels := ws, brightnessvalue := b\<rparr>) i c =
    bind_err (array_setitem ws i w)
      (\<lambda>px. Inr (s0\<lparr>pixels := ws, brightnessvalue := b\<rparr>\<lparr>pixels := px\<rparr>))"
proof -
  let ?s = "s0\<lparr>pixels := ws, brightnessvalue := b\<rparr>"
  from assms(1,2) obtain pr pg pb pw where
    sh: "shift s0 CHR ''R'' = Some (int (8 * pr))" "shift s0 CHR ''G'' = Some (int (8 * pg))"
    "shift s0 CHR ''B'' = Some (int (8 * pb))" "shift s0 CHR ''W'' = Some (int (8 * pw))"
    by (rule valid_init)
  have s: "shift ?s = shift s0" "pixels ?s = ws" by simp_all
  have "\<exists>w. \<forall>i. set_pixel ?s i c =
      bind_err (array_setitem (pixels ?s) i w) (\<lambda>px. Inr (?s\<lparr>pixels := px\<rparr>))"
    by (rule set_pixel_word [where sr = "int (8 * pr)" and sg = "int (8 * pg)"
          and sb = "int (8 * pb)" and sw = "int (8 * pw)"])
       (simp_all only: s sh of_nat_0_le_iff assms(3))
  then show ?thesis unfolding s(2) .
qed


subsection \<open>Indices\<close>

text \<open>
  C5 does not hold of \<^verbatim>\<open>set_pixel\<close> for the negative indices from \<open>- num_leds\<close> on:
  the array takes them as counting from its end, so on a buffer of three LEDs
  \<^verbatim>\<open>set_pixel(-1, (255, 0, 0))\<close> raises nothing and writes the last word.
\<close>

theorem set_pixel_negative_counterexample:
  "set_pixel rgb3 (- 1) [255, 0, 0] = Inr (rgb3\<lparr>pixels := [0, 0, 16711680]\<rparr>)"
proof -
  have "set_pixel rgb3 (- 1) [255, 0, 0] =
    bind_err (array_setitem (pixels rgb3) (- 1)
      (push_bit (nat 0)
          (if length [255, 0, 0 :: int] = 4 \<and> CHR ''W'' \<in> mode rgb3
           then py_round (of_int ([255, 0, 0] ! 3) * (of_int (brightnessvalue rgb3) / 255)) else 0)
       OR push_bit (nat 0) (py_round (of_int ([255, 0, 0] ! 2) * (of_int (brightnessvalue rgb3) / 255)))
       OR push_bit (nat 16) (py_round (of_int ([255, 0, 0] ! 0) * (of_int (brightnessvalue rgb3) / 255)))
       OR push_bit (nat 8) (py_round (of_int ([255, 0, 0] ! 1) * (of_int (brightnessvalue rgb3) / 255)))))
      (\<lambda>px. Inr (rgb3\<lparr>pixels := px\<rparr>))"
    by (rule set_pixel_unfold) (simp_all add: rgb3_def)
  also have "\<dots> = Inr (rgb3\<lparr>pixels := [0, 0, 16711680]\<rparr>)"
    by (simp only: scale_exact) (simp add: rgb3_def array_setitem_def bind_err_def Let_def)
  finally show ?thesis .
qed

text \<open>
  C5, amended: on every buffer of a supported mode, whatever its words, with a
  brightness in \<open>[1, 255]\<close> (the values that \<^verbatim>\<open>brightness\<close> stores) and a colour
  of 3 or 4 channels in \<open>[0, 255]\<close>, \<^verbatim>\<open>set_pixel(index, color)\<close> raises IndexError
  for every index with \<open>index \<ge> num_leds\<close> or \<open>index < - num_leds\<close>, and an index
  with \<open>- num_leds \<le> index < 0\<close> does what the index \<open>num_leds + index\<close> does. A
  call that raises leaves the buffer as it was: the assignment to the array is the
  last statement of \<^verbatim>\<open>set_pixel\<close>, so the model returns no new buffer with an error.
  Outside these colours the scaling of a channel can raise first (OverflowError for a
  channel value too large for a float), which is why the colour is restricted.
\<close>

theorem set_pixel_index_error:
  assumes "valid_mode m" and "init n m dl = Inr s0" and "length ws = length (pixels s0)"
    and "1 \<le> b" and "b \<le> 255"
    and "length c = 3 \<or> length c = 4" and "\<forall>x\<in>set c. 0 \<le> x \<and> x \<le> 255"
  shows "(i < - n \<or> n \<le> i \<longrightarrow>
          set_pixel (s0\<lparr>pixels := ws, brightnessvalue := b\<rparr>) i c = Inl IndexError)
     \<and> (- n \<le> i \<and> i < 0 \<longrightarrow>
          set_pixel (s0\<lparr>pixels := ws, brightnessvalue := b\<rparr>) i c
            = set_pixel (s0\<lparr>pixels := ws, brightnessvalue := b\<rparr>) (i + n) c)"
proof -
  from assms(6) have "3 \<le> length c" by auto
  from set_pixel_valid [OF assms(1,2) this, where ws = ws and b = b] obtain w where
    sp: "\<And>i. set_pixel (s0\<lparr>pixels := ws, brightnessvalue := b\<rparr>) i c =
      bind_err (array_setitem ws i w)
        (\<lambda>px. Inr (s0\<lparr>pixels := ws, brightnessvalue := b\<rparr>\<lparr>pixels := px\<rparr>))" by blast
  from assms(1,2) have "pixels s0 = replicate (nat n) 0" by (rule valid_init)
  with assms(3) have len: "length ws = nat n" by simp
  have out: "array_setitem ws i w = Inl IndexError" if "i < - n \<or> n \<le> i"
    using that len by (intro array_setitem_out) auto
  have neg: "array_setitem ws i w = array_setitem ws (i + n) w"
    if "- n \<le> i \<and> i < 0"
  proof -
    from that len have "int (length ws) = n" by simp
    with that array_setitem_neg [of ws i w] show ?thesis by simp
  qed
  show ?thesis
    unfolding sp using out neg by (simp add: bind_err_def)
qed

theorem set_pixel_index_error_witness:
  "valid_mode ''RGB'' \<and> init 3 ''RGB'' (1 / 10000) = Inr rgb3
   \<and> set_pixel (rgb3\<lparr>pixels := [7, 8, 9], brightnessvalue := 100\<rparr>) 3 [255, 128, 0]
       = Inl IndexError
   \<and> set_pixel (rgb3\<lparr>pixels := [7, 8, 9], brightnessvalue := 100\<rparr>) (- 4) [255, 128, 0]
       = Inl IndexError
   \<and> set_pixel (rgb3\<lparr>pixels := [7, 8, 9], brightnessvalue := 100\<rparr>) (- 1) [255, 128, 0]
       = set_pixel (rgb3\<lparr>pixels := [7, 8, 9], brightnessvalue := 100\<rparr>) 2 [255, 128, 0]"
proof -
  have l: "length [7, 8, 9 :: int] = length (pixels rgb3)" by (simp add: rgb3_def)
  have b: "(1::int) \<le> 100" "(100::int) \<le> 255" by simp_all
  have c: "length [255, 128, 0 :: int] = 3 \<or> length [255, 128, 0 :: int] = 4"
    "\<forall>x\<in>set [255, 128, 0 :: int]. 0 \<le> x \<and> x \<le> 255" by simp_all
  note t = set_pixel_index_error [OF valid_mode_RGB init_rgb3 l b c]
  from t [of 3] t [of "- 4"] t [of "- 1"] valid_mode_RGB init_rgb3
  show ?thesis by simp
qed

subsection \<open>The packed word and its lanes\<close>

lemma push_bound:
  assumes "0 \<le> (v::int)" and "v < 256" and "p < k"
  shows "push_bit (8 * p) v < 2 ^ (8 * k)"
proof -
  have "push_bit (8 * p) v = v * 2 ^ (8 * p)" by (simp add: push_bit_eq_mult)
  also have "\<dots> < 2 ^ 8 * 2 ^ (8 * p)" using assms(2) by simp
  also have "\<dots> = (2::int) ^ (8 * (p + 1))" by (simp add: power_add)
  also have "\<dots> \<le> 2 ^ (8 * k)" using assms(3) by (intro power_increasing) simp_all
  finally show ?thesis .
qed

lemma word_bound:
  assumes "0 \<le> (rd::int)" "rd < 256" "0 \<le> (gr::int)" "gr < 256"
    "0 \<le> (bl::int)" "bl < 256" "0 \<le> (wh::int)" "wh < 256"
    and "pr < k" "pg < k" "pb < k" "pw < k"
  shows "0 \<le> push_bit (8 * pw) wh OR push_bit (8 * pb) bl OR push_bit (8 * pr) rd
              OR push_bit (8 * pg) gr"
    and "push_bit (8 * pw) wh OR push_bit (8 * pb) bl OR push_bit (8 * pr) rd
              OR push_bit (8 * pg) gr < 2 ^ (8 * k)"
proof -
  note b = push_bound [OF assms(1,2) assms(9)] push_bound [OF assms(3,4) assms(10)]
    push_bound [OF assms(5,6) assms(11)] push_bound [OF assms(7,8) assms(12)]
  show "0 \<le> push_bit (8 * pw) wh OR push_bit (8 * pb) bl OR push_bit (8 * pr) rd
              OR push_bit (8 * pg) gr"
    using assms(1,3,5,7) by simp
  have 1: "push_bit (8 * pr) rd OR push_bit (8 * pg) gr < 2 ^ (8 * k)"
    by (rule OR_upper) (use assms(1) b(1,2) in simp_all)
  have 2: "push_bit (8 * pb) bl OR (push_bit (8 * pr) rd OR push_bit (8 * pg) gr) < 2 ^ (8 * k)"
    by (rule OR_upper) (use assms(5) b(3) 1 in simp_all)
  have 3: "push_bit (8 * pw) wh OR (push_bit (8 * pb) bl
      OR (push_bit (8 * pr) rd OR push_bit (8 * pg) gr)) < 2 ^ (8 * k)"
    by (rule OR_upper) (use assms(7) b(4) 2 in simp_all)
  then show "push_bit (8 * pw) wh OR push_bit (8 * pb) bl OR push_bit (8 * pr) rd
              OR push_bit (8 * pg) gr < 2 ^ (8 * k)"
    by (simp only: or.assoc)
qed

lemma word_lane:
  assumes "0 \<le> (rd::int)" "rd < 256" "0 \<le> (gr::int)" "gr < 256"
    "0 \<le> (bl::int)" "bl < 256" "0 \<le> (wh::int)" "wh < 256"
  shows "take_bit 8 (drop_bit (8 * p) (push_bit (8 * pw) wh OR push_bit (8 * pb) bl
            OR push_bit (8 * pr) rd OR push_bit (8 * pg) gr))
    = (if p = pw then wh else 0) OR (if p = pb then bl else 0)
      OR (if p = pr then rd else 0) OR (if p = pg then gr else 0)"
  unfolding drop_bit_or take_bit_or
  by (simp only: lane_push [OF assms(1,2)] lane_push [OF assms(3,4)]
        lane_push [OF assms(5,6)] lane_push [OF assms(7,8)])

lemma scale_spec: "py_round (of_int c * (of_int b / 255)) = spec_scale c b"
  by (simp only: scale_exact spec_scale_exact)

lemma spec_scale_bounds:
  assumes "0 \<le> c" and "c \<le> 255" and "1 \<le> b" and "b \<le> 255"
  shows "0 \<le> spec_scale c b" and "spec_scale c b < 256"
  unfolding spec_scale_exact using scale_bounds [OF assms] by simp_all

lemma unpack_lane:
  assumes "pos ch = Some (int (8 * p))"
  shows "unpack pos w ch = Inr (take_bit 8 (drop_bit (8 * p) w))"
  using assms by (simp add: unpack_def dict_getitem_def bind_err_def and_255 nat_mult_distrib)

lemma set_pixel_stores:
  assumes vm: "valid_mode m" and ini: "init n m dl = Inr s0"
    and b: "1 \<le> b" "b \<le> 255"
    and len: "length c = 3 \<or> length c = 4"
    and rng: "\<forall>x\<in>set c. 0 \<le> x \<and> x \<le> 255"
  shows "\<exists>w. 0 \<le> w \<and> w < 2 ^ 32
    \<and> (\<forall>ws i. set_pixel (s0\<lparr>pixels := ws, brightnessvalue := b\<rparr>) i c
          = bind_err (array_setitem ws i w)
              (\<lambda>px. Inr (s0\<lparr>pixels := px, brightnessvalue := b\<rparr>)))
    \<and> unpack (shift s0) w CHR ''R'' = Inr (spec_scale (c ! 0) b)
    \<and> unpack (shift s0) w CHR ''G'' = Inr (spec_scale (c ! 1) b)
    \<and> unpack (shift s0) w CHR ''B'' = Inr (spec_scale (c ! 2) b)
    \<and> (CHR ''W'' \<in> set m \<and> length c = 4 \<longrightarrow>
          unpack (shift s0) w CHR ''W'' = Inr (spec_scale (c ! 3) b))
    \<and> (CHR ''W'' \<in> set m \<and> length c = 3 \<longrightarrow> unpack (shift s0) w CHR ''W'' = Inr 0)
    \<and> (CHR ''W'' \<notin> set m \<longrightarrow> w < 2 ^ 24)"
proof -
  from vm ini obtain pr pg pb pw where
    sh: "shift s0 CHR ''R'' = Some (int (8 * pr))" "shift s0 CHR ''G'' = Some (int (8 * pg))"
      "shift s0 CHR ''B'' = Some (int (8 * pb))" "shift s0 CHR ''W'' = Some (int (8 * pw))"
    and lt: "pr < 4" "pg < 4" "pb < 4" "pw < 4"
    and ne: "pr \<noteq> pg" "pr \<noteq> pb" "pg \<noteq> pb"
    and wm: "CHR ''W'' \<in> mode s0 \<longrightarrow> pw \<noteq> pr \<and> pw \<noteq> pg \<and> pw \<noteq> pb"
    and nw: "CHR ''W'' \<notin> mode s0 \<longrightarrow> pw = 0 \<and> pr < 3 \<and> pg < 3 \<and> pb < 3"
    and md: "mode s0 = set m"
    by (rule valid_init)
  from len have l3: "3 \<le> length c" by auto
  then have "0 < length c" "1 < length c" "2 < length c" by linarith+
  then have mem: "c ! 0 \<in> set c" "c ! 1 \<in> set c" "c ! 2 \<in> set c"
    by (simp_all only: nth_mem)
  define rd where "rd = spec_scale (c ! 0) b"
  define gr where "gr = spec_scale (c ! 1) b"
  define bl where "bl = spec_scale (c ! 2) b"
  define wh where "wh = (if length c = 4 \<and> CHR ''W'' \<in> mode s0 then spec_scale (c ! 3) b else 0)"
  define w where "w = push_bit (8 * pw) wh OR push_bit (8 * pb) bl OR push_bit (8 * pr) rd
      OR push_bit (8 * pg) gr"
  have rd: "0 \<le> rd" "rd < 256" unfolding rd_def
    using spec_scale_bounds [of "c ! 0" b] rng mem(1) b by simp_all
  have gr: "0 \<le> gr" "gr < 256" unfolding gr_def
    using spec_scale_bounds [of "c ! 1" b] rng mem(2) b by simp_all
  have bl: "0 \<le> bl" "bl < 256" unfolding bl_def
    using spec_scale_bounds [of "c ! 2" b] rng mem(3) b by simp_all
  have wh: "0 \<le> wh" "wh < 256"
  proof -
    show "0 \<le> wh"
    proof (cases "length c = 4 \<and> CHR ''W'' \<in> mode s0")
      case True
      then have "c ! 3 \<in> set c" by simp
      with True spec_scale_bounds [of "c ! 3" b] rng b show ?thesis by (simp add: wh_def)
    next
      case False
      then show ?thesis by (auto simp: wh_def)
    qed
    show "wh < 256"
    proof (cases "length c = 4 \<and> CHR ''W'' \<in> mode s0")
      case True
      then have "c ! 3 \<in> set c" by simp
      with True spec_scale_bounds [of "c ! 3" b] rng b show ?thesis by (simp add: wh_def)
    next
      case False
      then show ?thesis by (auto simp: wh_def)
    qed
  qed
  have w0: "0 \<le> w" and w32: "w < 2 ^ 32"
    using word_bound [OF rd gr bl wh lt(1) lt(2) lt(3) lt(4)] unfolding w_def by simp_all
  have lane: "take_bit 8 (drop_bit (8 * p) w)
      = (if p = pw then wh else 0) OR (if p = pb then bl else 0)
        OR (if p = pr then rd else 0) OR (if p = pg then gr else 0)" for p
    unfolding w_def by (rule word_lane [OF rd gr bl wh])
  have wz: "pw = pr \<or> pw = pg \<or> pw = pb \<Longrightarrow> wh = 0"
    using wm nw by (cases "CHR ''W'' \<in> mode s0") (auto simp: wh_def)
  have laneR: "take_bit 8 (drop_bit (8 * pr) w) = rd"
    unfolding lane using ne wz by auto
  have laneG: "take_bit 8 (drop_bit (8 * pg) w) = gr"
    unfolding lane using ne wz by auto
  have laneB: "take_bit 8 (drop_bit (8 * pb) w) = bl"
    unfolding lane using ne wz by auto
  have laneW: "take_bit 8 (drop_bit (8 * pw) w) = wh" if "CHR ''W'' \<in> mode s0"
    unfolding lane using wm that by auto
  have sp: "set_pixel (s0\<lparr>pixels := ws, brightnessvalue := b\<rparr>) i c
          = bind_err (array_setitem ws i w)
              (\<lambda>px. Inr (s0\<lparr>pixels := px, brightnessvalue := b\<rparr>))" for ws i
  proof -
    let ?s = "s0\<lparr>pixels := ws, brightnessvalue := b\<rparr>"
    have u: "set_pixel ?s i c =
      bind_err (array_setitem (pixels ?s) i
        (push_bit (nat (int (8 * pw)))
            (if length c = 4 \<and> CHR ''W'' \<in> mode ?s
             then py_round (of_int (c ! 3) * (of_int (brightnessvalue ?s) / 255)) else 0)
         OR push_bit (nat (int (8 * pb))) (py_round (of_int (c ! 2) * (of_int (brightnessvalue ?s) / 255)))
         OR push_bit (nat (int (8 * pr))) (py_round (of_int (c ! 0) * (of_int (brightnessvalue ?s) / 255)))
         OR push_bit (nat (int (8 * pg))) (py_round (of_int (c ! 1) * (of_int (brightnessvalue ?s) / 255)))))
        (\<lambda>px. Inr (?s\<lparr>pixels := px\<rparr>))"
      by (rule set_pixel_unfold) (simp_all add: sh l3)
    have sel: "pixels ?s = ws" "brightnessvalue ?s = b" "mode ?s = mode s0"
      "\<And>px. ?s\<lparr>pixels := px\<rparr> = s0\<lparr>pixels := px, brightnessvalue := b\<rparr>"
      by simp_all
    show ?thesis
      unfolding u
      by (simp only: sel nat_int scale_spec w_def wh_def rd_def gr_def bl_def)
  qed
  have "0 \<le> w \<and> w < 2 ^ 32" using w0 w32 by simp
  moreover have "\<forall>ws i. set_pixel (s0\<lparr>pixels := ws, brightnessvalue := b\<rparr>) i c
          = bind_err (array_setitem ws i w)
              (\<lambda>px. Inr (s0\<lparr>pixels := px, brightnessvalue := b\<rparr>))"
    using sp by blast
  moreover have "unpack (shift s0) w CHR ''R'' = Inr (spec_scale (c ! 0) b)"
    unfolding unpack_lane [of "shift s0" "CHR ''R''" pr, OF sh(1)] laneR rd_def ..
  moreover have "unpack (shift s0) w CHR ''G'' = Inr (spec_scale (c ! 1) b)"
    unfolding unpack_lane [of "shift s0" "CHR ''G''" pg, OF sh(2)] laneG gr_def ..
  moreover have "unpack (shift s0) w CHR ''B'' = Inr (spec_scale (c ! 2) b)"
    unfolding unpack_lane [of "shift s0" "CHR ''B''" pb, OF sh(3)] laneB bl_def ..
  moreover have "CHR ''W'' \<in> set m \<and> length c = 4 \<longrightarrow>
          unpack (shift s0) w CHR ''W'' = Inr (spec_scale (c ! 3) b)"
    using laneW by (simp add: unpack_lane [of "shift s0" "CHR ''W''" pw, OF sh(4)] md wh_def)
  moreover have "CHR ''W'' \<in> set m \<and> length c = 3 \<longrightarrow> unpack (shift s0) w CHR ''W'' = Inr 0"
    using laneW by (simp add: unpack_lane [of "shift s0" "CHR ''W''" pw, OF sh(4)] md wh_def)
  moreover have "CHR ''W'' \<notin> set m \<longrightarrow> w < 2 ^ 24"
  proof
    assume "CHR ''W'' \<notin> set m"
    with nw md have p: "pw < 3" "pr < 3" "pg < 3" "pb < 3" by simp_all
    from word_bound(2) [OF rd gr bl wh p(2) p(3) p(4) p(1)] show "w < 2 ^ 24"
      unfolding w_def by simp
  qed
  ultimately show ?thesis by blast
qed

lemma array_setitem_in:
  assumes "0 \<le> i" and "i < int (length a)" and "0 \<le> v" and "v < 2 ^ 32"
  shows "array_setitem a i v = Inr (a[nat i := v])"
  using assms by (simp add: array_setitem_def Let_def)


text \<open>
  C1: on every buffer constructed with a permutation of RGB or of RGBW as its mode,
  with any words in it, for every brightness in \<open>[1, 255]\<close>, every index in
  \<open>[0, num_leds)\<close> and every colour of 3 or 4 channels, all in \<open>[0, 255]\<close>,
  \<^verbatim>\<open>set_pixel(index, c)\<close> succeeds and changes only the word at the index. Reading
  that word back lane by lane with the buffer's own shifts gives
  \<^verbatim>\<open>round(c[ch] * brightness / 255)\<close> for R, G and B, and for W on an RGBW buffer
  (0 there when the colour has 3 channels). On an RGB buffer the word is below
  \<open>2^24\<close>: the top lane is zero and a fourth channel value has no effect.
\<close>

theorem set_pixel_round_trip:
  assumes "valid_mode m" and "init n m dl = Inr s0" and "length ws = length (pixels s0)"
    and "1 \<le> b" and "b \<le> 255" and "0 \<le> i" and "i < n"
    and "length c = 3 \<or> length c = 4" and "\<forall>x\<in>set c. 0 \<le> x \<and> x \<le> 255"
  shows "\<exists>w. set_pixel (s0\<lparr>pixels := ws, brightnessvalue := b\<rparr>) i c
          = Inr (s0\<lparr>pixels := ws[nat i := w], brightnessvalue := b\<rparr>)
    \<and> unpack (shift s0) w CHR ''R'' = Inr (spec_scale (c ! 0) b)
    \<and> unpack (shift s0) w CHR ''G'' = Inr (spec_scale (c ! 1) b)
    \<and> unpack (shift s0) w CHR ''B'' = Inr (spec_scale (c ! 2) b)
    \<and> (CHR ''W'' \<in> set m \<and> length c = 4 \<longrightarrow>
          unpack (shift s0) w CHR ''W'' = Inr (spec_scale (c ! 3) b))
    \<and> (CHR ''W'' \<in> set m \<and> length c = 3 \<longrightarrow> unpack (shift s0) w CHR ''W'' = Inr 0)
    \<and> (CHR ''W'' \<notin> set m \<longrightarrow> w < 2 ^ 24)"
proof -
  from set_pixel_stores [OF assms(1,2,4,5,8,9)] obtain w where
    w: "0 \<le> w" "w < 2 ^ 32"
    and sp: "\<And>ws i. set_pixel (s0\<lparr>pixels := ws, brightnessvalue := b\<rparr>) i c
          = bind_err (array_setitem ws i w)
              (\<lambda>px. Inr (s0\<lparr>pixels := px, brightnessvalue := b\<rparr>))"
    and lanes: "unpack (shift s0) w CHR ''R'' = Inr (spec_scale (c ! 0) b)"
      "unpack (shift s0) w CHR ''G'' = Inr (spec_scale (c ! 1) b)"
      "unpack (shift s0) w CHR ''B'' = Inr (spec_scale (c ! 2) b)"
      "CHR ''W'' \<in> set m \<and> length c = 4 \<longrightarrow>
          unpack (shift s0) w CHR ''W'' = Inr (spec_scale (c ! 3) b)"
      "CHR ''W'' \<in> set m \<and> length c = 3 \<longrightarrow> unpack (shift s0) w CHR ''W'' = Inr 0"
      "CHR ''W'' \<notin> set m \<longrightarrow> w < 2 ^ 24"
    by blast
  from assms(1,2) have "pixels s0 = replicate (nat n) 0" by (rule valid_init)
  with assms(3,6,7) have "i < int (length ws)" by simp
  from array_setitem_in [OF assms(6) this w]
  have "set_pixel (s0\<lparr>pixels := ws, brightnessvalue := b\<rparr>) i c
          = Inr (s0\<lparr>pixels := ws[nat i := w], brightnessvalue := b\<rparr>)"
    unfolding sp by (simp add: bind_err_def)
  with lanes show ?thesis by blast
qed

theorem set_pixel_round_trip_witness:
  "valid_mode ''RGB'' \<and> init 3 ''RGB'' (1 / 10000) = Inr rgb3
   \<and> (\<exists>w. set_pixel (rgb3\<lparr>pixels := [7, 8, 9], brightnessvalue := 100\<rparr>) 1 [255, 128, 0, 77]
          = Inr (rgb3\<lparr>pixels := [7, w, 9], brightnessvalue := 100\<rparr>)
        \<and> unpack (shift rgb3) w CHR ''R'' = Inr 100
        \<and> unpack (shift rgb3) w CHR ''G'' = Inr 50
        \<and> unpack (shift rgb3) w CHR ''B'' = Inr 0
        \<and> w < 2 ^ 24)"
proof -
  have l: "length [7, 8, 9 :: int] = length (pixels rgb3)" by (simp add: rgb3_def)
  have c: "length [255, 128, 0, 77 :: int] = 3 \<or> length [255, 128, 0, 77 :: int] = 4"
    "\<forall>x\<in>set [255, 128, 0, 77 :: int]. 0 \<le> x \<and> x \<le> 255" by simp_all
  have b: "(1::int) \<le> 100" "(100::int) \<le> 255" "(0::int) \<le> 1" "(1::int) < 3" by simp_all
  from set_pixel_round_trip [OF valid_mode_RGB init_rgb3 l b c]
  have "\<exists>w. set_pixel (rgb3\<lparr>pixels := [7, 8, 9], brightnessvalue := 100\<rparr>) 1 [255, 128, 0, 77]
          = Inr (rgb3\<lparr>pixels := [7, w, 9], brightnessvalue := 100\<rparr>)
        \<and> unpack (shift rgb3) w CHR ''R'' = Inr 100
        \<and> unpack (shift rgb3) w CHR ''G'' = Inr 50
        \<and> unpack (shift rgb3) w CHR ''B'' = Inr 0
        \<and> w < 2 ^ 24"
    by (simp add: spec_scale_exact)
  with valid_mode_RGB init_rgb3 show ?thesis by blast
qed

text \<open>
  C10: \<^verbatim>\<open>set_pixel\<close> does not mask the scaled channels. On the three-LED RGB buffer
  at brightness 255 the colour \<open>(0, 256, 0)\<close> scales to itself, and its green channel
  spills into the red lane: the stored word is \<open>65536\<close>, whose red lane reads 1 and
  whose green lane reads 0, while the same colour with green masked to 8 bits stores
  the word 0. The round trip of C1 therefore needs every scaled channel in
  \<open>[0, 255]\<close>.
\<close>

theorem set_pixel_no_mask:
  "set_pixel rgb3 0 [0, 256, 0] = Inr (rgb3\<lparr>pixels := [65536, 0, 0]\<rparr>)
   \<and> set_pixel rgb3 0 [0, 256 AND 255, 0] = Inr (rgb3\<lparr>pixels := [0, 0, 0]\<rparr>)
   \<and> unpack (shift rgb3) 65536 CHR ''R'' = Inr 1
   \<and> unpack (shift rgb3) 0 CHR ''R'' = Inr 0
   \<and> unpack (shift rgb3) 65536 CHR ''G'' = Inr 0
   \<and> spec_scale 256 255 = 256"
proof -
  have u: "set_pixel rgb3 0 c =
    bind_err (array_setitem (pixels rgb3) 0
      (push_bit (nat 0)
          (if length c = 4 \<and> CHR ''W'' \<in> mode rgb3
           then py_round (of_int (c ! 3) * (of_int (brightnessvalue rgb3) / 255)) else 0)
       OR push_bit (nat 0) (py_round (of_int (c ! 2) * (of_int (brightnessvalue rgb3) / 255)))
       OR push_bit (nat 16) (py_round (of_int (c ! 0) * (of_int (brightnessvalue rgb3) / 255)))
       OR push_bit (nat 8) (py_round (of_int (c ! 1) * (of_int (brightnessvalue rgb3) / 255)))))
      (\<lambda>px. Inr (rgb3\<lparr>pixels := px\<rparr>))" if "3 \<le> length c" for c
    using that by (intro set_pixel_unfold) (simp_all add: rgb3_def)
  have l: "3 \<le> length [0, 256, 0 :: int]" "3 \<le> length [0, 256 AND 255, 0 :: int]"
    by simp_all
  have 1: "set_pixel rgb3 0 [0, 256, 0] = Inr (rgb3\<lparr>pixels := [65536, 0, 0]\<rparr>)"
    unfolding u [OF l(1)]
    by (simp only: scale_exact) (simp add: rgb3_def array_setitem_def bind_err_def Let_def)
  have 2: "set_pixel rgb3 0 [0, 256 AND 255, 0] = Inr (rgb3\<lparr>pixels := [0, 0, 0]\<rparr>)"
    unfolding u [OF l(2)]
    by (simp only: scale_exact) (simp add: rgb3_def array_setitem_def bind_err_def Let_def)
  have 3: "unpack (shift rgb3) 65536 CHR ''R'' = Inr 1"
    "unpack (shift rgb3) 0 CHR ''R'' = Inr 0"
    "unpack (shift rgb3) 65536 CHR ''G'' = Inr 0"
    by (simp_all add: unpack_def dict_getitem_def bind_err_def rgb3_def and_255
          drop_bit_eq_div take_bit_eq_mod)
  have 4: "spec_scale 256 255 = 256" by (simp add: spec_scale_exact)
  from 1 2 3 4 show ?thesis by blast
qed

section \<open>Setting a range of pixels\<close>

lemma set_pixel_loop_append:
  "set_pixel_loop s (xs @ ys) c =
     (case set_pixel_loop s xs c of Inl e \<Rightarrow> Inl e | Inr s' \<Rightarrow> set_pixel_loop s' ys c)"
  by (induction xs arbitrary: s) (auto split: sum.splits)

lemma fill_step:
  assumes "0 \<le> a" and "a \<le> b" and "nat a < length ws"
  shows "map (\<lambda>j. if a + 1 \<le> int j \<and> int j \<le> b then w else ws[nat a := w] ! j)
           [0..<length (ws[nat a := w])]
       = map (\<lambda>j. if a \<le> int j \<and> int j \<le> b then w else ws ! j) [0..<length ws]"
proof (rule nth_equalityI)
  show "length (map (\<lambda>j. if a + 1 \<le> int j \<and> int j \<le> b then w else ws[nat a := w] ! j)
           [0..<length (ws[nat a := w])])
      = length (map (\<lambda>j. if a \<le> int j \<and> int j \<le> b then w else ws ! j) [0..<length ws])"
    by simp
next
  fix j
  assume "j < length (map (\<lambda>j. if a + 1 \<le> int j \<and> int j \<le> b then w else ws[nat a := w] ! j)
           [0..<length (ws[nat a := w])])"
  then have j: "j < length ws" by simp
  show "map (\<lambda>j. if a + 1 \<le> int j \<and> int j \<le> b then w else ws[nat a := w] ! j)
           [0..<length (ws[nat a := w])] ! j
      = map (\<lambda>j. if a \<le> int j \<and> int j \<le> b then w else ws ! j) [0..<length ws] ! j"
  proof (cases "j = nat a")
    case True
    with assms j show ?thesis by simp
  next
    case False
    with assms j have "int j \<noteq> a" by auto
    with False j show ?thesis by (auto simp: nth_list_update)
  qed
qed

lemma set_pixel_loop_fill:
  fixes S :: "int list \<Rightarrow> neopixel"
  assumes sp: "\<And>ws i. set_pixel (S ws) i c
      = bind_err (array_setitem ws i w) (\<lambda>px. Inr (S px))"
    and w: "0 \<le> w" "w < 2 ^ 32"
  shows "0 \<le> a \<Longrightarrow> b < int (length ws) \<Longrightarrow>
    set_pixel_loop (S ws) [a..b] c
      = Inr (S (map (\<lambda>j. if a \<le> int j \<and> int j \<le> b then w else ws ! j) [0..<length ws]))"
proof (induction "nat (b + 1 - a)" arbitrary: a ws)
  case 0
  then have "b < a" by simp
  then have e: "[a..b] = []" by simp
  from \<open>b < a\<close> have "map (\<lambda>j. if a \<le> int j \<and> int j \<le> b then w else ws ! j) [0..<length ws]
      = map (\<lambda>j. ws ! j) [0..<length ws]" by (intro map_cong) auto
  also have "\<dots> = ws" by (rule map_nth)
  finally show ?case by (simp add: e)
next
  case (Suc k)
  then have ab: "a \<le> b" by simp
  then have e: "[a..b] = a # [a + 1..b]" by (rule upto_rec1)
  from Suc.prems ab have lt: "a < int (length ws)" "nat a < length ws" by simp_all
  from array_setitem_in [OF Suc.prems(1) lt(1) w]
  have s1: "set_pixel (S ws) a c = Inr (S (ws[nat a := w]))"
    unfolding sp by (simp add: bind_err_def)
  from Suc.hyps(2) have k: "k = nat (b + 1 - (a + 1))" by simp
  from Suc.prems have p: "0 \<le> a + 1" "b < int (length (ws[nat a := w]))" by simp_all
  from Suc.hyps(1) [OF k p]
  have "set_pixel_loop (S (ws[nat a := w])) [a + 1..b] c
      = Inr (S (map (\<lambda>j. if a + 1 \<le> int j \<and> int j \<le> b then w else ws[nat a := w] ! j)
           [0..<length (ws[nat a := w])]))" .
  then show ?case
    unfolding e fill_step [OF Suc.prems(1) ab lt(2)] by (simp add: s1)
qed

text \<open>
  C4 does not hold of \<^verbatim>\<open>set_pixel_line\<close>, which validates no endpoint and loops over
  \<^verbatim>\<open>range(pixel1, pixel2 + 1)\<close>: on the buffer of three LEDs the call with the
  endpoints 0 and 3 raises IndexError only after it has written the words 0, 1 and 2,
  and the call with the endpoints 2 and 0 writes nothing.
\<close>

theorem set_pixel_line_partial_counterexample:
  "set_pixel_line rgb3 0 3 [255, 0, 0]
     = Inl (IndexError, rgb3\<lparr>pixels := [16711680, 16711680, 16711680]\<rparr>)
   \<and> set_pixel_line rgb3 2 0 [255, 0, 0] = Inr rgb3"
proof -
  have u: "set_pixel (rgb3\<lparr>pixels := px\<rparr>) i [255, 0, 0] =
      bind_err (array_setitem px i 16711680) (\<lambda>px'. Inr (rgb3\<lparr>pixels := px'\<rparr>))" for px i
  proof -
    let ?s = "rgb3\<lparr>pixels := px\<rparr>"
    have "set_pixel ?s i [255, 0, 0] =
      bind_err (array_setitem (pixels ?s) i
        (push_bit (nat 0)
            (if length [255, 0, 0 :: int] = 4 \<and> CHR ''W'' \<in> mode ?s
             then py_round (of_int ([255, 0, 0] ! 3) * (of_int (brightnessvalue ?s) / 255)) else 0)
         OR push_bit (nat 0) (py_round (of_int ([255, 0, 0] ! 2) * (of_int (brightnessvalue ?s) / 255)))
         OR push_bit (nat 16) (py_round (of_int ([255, 0, 0] ! 0) * (of_int (brightnessvalue ?s) / 255)))
         OR push_bit (nat 8) (py_round (of_int ([255, 0, 0] ! 1) * (of_int (brightnessvalue ?s) / 255)))))
        (\<lambda>px'. Inr (?s\<lparr>pixels := px'\<rparr>))"
      by (rule set_pixel_unfold) (simp_all add: rgb3_def)
    also have "\<dots> = bind_err (array_setitem px i 16711680) (\<lambda>px'. Inr (rgb3\<lparr>pixels := px'\<rparr>))"
      by (simp only: scale_exact) (simp add: rgb3_def)
    finally show ?thesis .
  qed
  have r: "rgb3 = rgb3\<lparr>pixels := [0, 0, 0]\<rparr>" by (simp add: rgb3_def)
  have 1: "set_pixel_line (rgb3\<lparr>pixels := [0, 0, 0]\<rparr>) 0 3 [255, 0, 0]
     = Inl (IndexError, rgb3\<lparr>pixels := [16711680, 16711680, 16711680]\<rparr>)"
    by (simp add: set_pixel_line_def upto_rec1 u array_setitem_def bind_err_def Let_def)
  have 2: "set_pixel_line rgb3 2 0 [255, 0, 0] = Inr rgb3"
    by (simp add: set_pixel_line_def)
  from 1 2 r show ?thesis by simp
qed

text \<open>
  C4, amended: on every buffer of a supported mode, with a brightness in \<open>[1, 255]\<close>
  and a colour of 3 or 4 channels in \<open>[0, 255]\<close>, \<^verbatim>\<open>set_pixel_line(pixel1, pixel2, c)\<close>
  with \<open>0 \<le> pixel1 \<le> pixel2 < num_leds\<close> stores at every index of
  \<open>[pixel1, pixel2]\<close> the word that \<^verbatim>\<open>set_pixel\<close> stores for the colour and leaves
  the other words as they were. With \<open>0 \<le> pixel1 \<le> num_leds \<le> pixel2\<close> the call
  raises IndexError, and by then it has written the words from \<open>pixel1\<close> to
  \<open>num_leds - 1\<close>.
\<close>

theorem set_pixel_line_range:
  assumes "valid_mode m" and "init n m dl = Inr s0" and "length ws = length (pixels s0)"
    and "1 \<le> b" and "b \<le> 255"
    and "length c = 3 \<or> length c = 4" and "\<forall>x\<in>set c. 0 \<le> x \<and> x \<le> 255"
  shows "\<exists>w.
      (\<forall>i. 0 \<le> i \<and> i < n \<longrightarrow>
         set_pixel (s0\<lparr>pixels := ws, brightnessvalue := b\<rparr>) i c
           = Inr (s0\<lparr>pixels := ws[nat i := w], brightnessvalue := b\<rparr>))
    \<and> (\<forall>pixel1 pixel2. 0 \<le> pixel1 \<and> pixel1 \<le> pixel2 \<and> pixel2 < n \<longrightarrow>
         set_pixel_line (s0\<lparr>pixels := ws, brightnessvalue := b\<rparr>) pixel1 pixel2 c
           = Inr (s0\<lparr>pixels := map (\<lambda>j. if pixel1 \<le> int j \<and> int j \<le> pixel2 then w
                                          else ws ! j) [0..<length ws],
                     brightnessvalue := b\<rparr>))
    \<and> (\<forall>pixel1 pixel2. 0 \<le> pixel1 \<and> pixel1 \<le> n \<and> n \<le> pixel2 \<longrightarrow>
         set_pixel_line (s0\<lparr>pixels := ws, brightnessvalue := b\<rparr>) pixel1 pixel2 c
           = Inl (IndexError,
                  s0\<lparr>pixels := map (\<lambda>j. if pixel1 \<le> int j \<and> int j \<le> n - 1 then w
                                          else ws ! j) [0..<length ws],
                     brightnessvalue := b\<rparr>))"
proof -
  define S where "S = (\<lambda>px. s0\<lparr>pixels := px, brightnessvalue := b\<rparr>)"
  from set_pixel_stores [OF assms(1,2,4,5,6,7)] obtain w where
    w: "0 \<le> w" "w < 2 ^ 32"
    and sp0: "\<And>ws i. set_pixel (s0\<lparr>pixels := ws, brightnessvalue := b\<rparr>) i c
          = bind_err (array_setitem ws i w)
              (\<lambda>px. Inr (s0\<lparr>pixels := px, brightnessvalue := b\<rparr>))"
    by blast
  have sp: "\<And>ws i. set_pixel (S ws) i c = bind_err (array_setitem ws i w) (\<lambda>px. Inr (S px))"
    unfolding S_def by (rule sp0)
  from assms(1,2) have "pixels s0 = replicate (nat n) 0" by (rule valid_init)
  with assms(3) have len: "length ws = nat n" by simp
  have one: "set_pixel (S ws) i c = Inr (S (ws[nat i := w]))" if "0 \<le> i \<and> i < n" for i
  proof -
    from that len have "0 \<le> i" "i < int (length ws)" by simp_all
    from array_setitem_in [OF this w] show ?thesis unfolding sp by (simp add: bind_err_def)
  qed
  have ok: "set_pixel_line (S ws) pixel1 pixel2 c
      = Inr (S (map (\<lambda>j. if pixel1 \<le> int j \<and> int j \<le> pixel2 then w else ws ! j)
                  [0..<length ws]))"
    if "0 \<le> pixel1 \<and> pixel1 \<le> pixel2 \<and> pixel2 < n" for pixel1 pixel2
  proof -
    from that len have "0 \<le> pixel1" "pixel2 < int (length ws)" by simp_all
    from set_pixel_loop_fill [of S c w, OF sp w this] show ?thesis
      by (simp add: set_pixel_line_def)
  qed
  have bad: "set_pixel_line (S ws) pixel1 pixel2 c
      = Inl (IndexError, S (map (\<lambda>j. if pixel1 \<le> int j \<and> int j \<le> n - 1 then w else ws ! j)
                  [0..<length ws]))"
    if "0 \<le> pixel1 \<and> pixel1 \<le> n \<and> n \<le> pixel2" for pixel1 pixel2
  proof -
    let ?f = "map (\<lambda>j. if pixel1 \<le> int j \<and> int j \<le> n - 1 then w else ws ! j) [0..<length ws]"
    from that have split: "[pixel1..pixel2] = [pixel1..n - 1] @ [n..pixel2]"
      by (intro upto_split1) simp_all
    from that have hd: "[n..pixel2] = n # [n + 1..pixel2]" by (intro upto_rec1) simp
    from that len have "0 \<le> pixel1" "n - 1 < int (length ws)" by simp_all
    from set_pixel_loop_fill [of S c w, OF sp w this]
    have pre: "set_pixel_loop (S ws) [pixel1..n - 1] c = Inr (S ?f)" .
    from that len have "n < - int (length ?f) \<or> int (length ?f) \<le> n" by simp
    then have "array_setitem ?f n w = Inl IndexError" by (rule array_setitem_out)
    then have fail: "set_pixel (S ?f) n c = Inl IndexError"
      unfolding sp by (simp add: bind_err_def)
    show ?thesis
      unfolding set_pixel_line_def split set_pixel_loop_append pre hd
      by (simp only: set_pixel_loop.simps fail sum.case)
  qed
  from one ok bad show ?thesis unfolding S_def by blast
qed

theorem set_pixel_line_range_witness:
  "valid_mode ''RGB'' \<and> init 3 ''RGB'' (1 / 10000) = Inr rgb3
   \<and> (\<exists>w. set_pixel (rgb3\<lparr>pixels := [7, 8, 9], brightnessvalue := 100\<rparr>) 1 [255, 128, 0]
          = Inr (rgb3\<lparr>pixels := [7, w, 9], brightnessvalue := 100\<rparr>)
        \<and> set_pixel_line (rgb3\<lparr>pixels := [7, 8, 9], brightnessvalue := 100\<rparr>) 1 2 [255, 128, 0]
          = Inr (rgb3\<lparr>pixels := [7, w, w], brightnessvalue := 100\<rparr>)
        \<and> set_pixel_line (rgb3\<lparr>pixels := [7, 8, 9], brightnessvalue := 100\<rparr>) 1 5 [255, 128, 0]
          = Inl (IndexError, rgb3\<lparr>pixels := [7, w, w], brightnessvalue := 100\<rparr>))"
proof -
  have l: "length [7, 8, 9 :: int] = length (pixels rgb3)" by (simp add: rgb3_def)
  have c: "length [255, 128, 0 :: int] = 3 \<or> length [255, 128, 0 :: int] = 4"
    "\<forall>x\<in>set [255, 128, 0 :: int]. 0 \<le> x \<and> x \<le> 255" by simp_all
  have b: "(1::int) \<le> 100" "(100::int) \<le> 255" by simp_all
  from set_pixel_line_range [OF valid_mode_RGB init_rgb3 l b c] obtain w where
    1: "\<forall>i. 0 \<le> i \<and> i < 3 \<longrightarrow>
         set_pixel (rgb3\<lparr>pixels := [7, 8, 9], brightnessvalue := 100\<rparr>) i [255, 128, 0]
           = Inr (rgb3\<lparr>pixels := [7, 8, 9][nat i := w], brightnessvalue := 100\<rparr>)"
    and 2: "\<forall>pixel1 pixel2. 0 \<le> pixel1 \<and> pixel1 \<le> pixel2 \<and> pixel2 < 3 \<longrightarrow>
         set_pixel_line (rgb3\<lparr>pixels := [7, 8, 9], brightnessvalue := 100\<rparr>) pixel1 pixel2
             [255, 128, 0]
           = Inr (rgb3\<lparr>pixels := map (\<lambda>j. if pixel1 \<le> int j \<and> int j \<le> pixel2 then w
                                          else [7, 8, 9] ! j) [0..<length [7, 8, 9 :: int]],
                     brightnessvalue := 100\<rparr>)"
    and 3: "\<forall>pixel1 pixel2. 0 \<le> pixel1 \<and> pixel1 \<le> 3 \<and> 3 \<le> pixel2 \<longrightarrow>
         set_pixel_line (rgb3\<lparr>pixels := [7, 8, 9], brightnessvalue := 100\<rparr>) pixel1 pixel2
             [255, 128, 0]
           = Inl (IndexError,
                  rgb3\<lparr>pixels := map (\<lambda>j. if pixel1 \<le> int j \<and> int j \<le> 3 - 1 then w
                                          else [7, 8, 9] ! j) [0..<length [7, 8, 9 :: int]],
                     brightnessvalue := 100\<rparr>)"
    by blast
  have u: "[0..<length [7, 8, 9 :: int]] = [0, 1, 2]" by (simp add: upt_rec)
  from 1 [rule_format, of 1] have a: "set_pixel (rgb3\<lparr>pixels := [7, 8, 9], brightnessvalue := 100\<rparr>) 1 [255, 128, 0]
          = Inr (rgb3\<lparr>pixels := [7, w, 9], brightnessvalue := 100\<rparr>)" by simp
  from 2 [rule_format, of 1 2] have b: "set_pixel_line (rgb3\<lparr>pixels := [7, 8, 9], brightnessvalue := 100\<rparr>) 1 2 [255, 128, 0]
          = Inr (rgb3\<lparr>pixels := [7, w, w], brightnessvalue := 100\<rparr>)"
    unfolding u by simp
  from 3 [rule_format, of 1 5] have c: "set_pixel_line (rgb3\<lparr>pixels := [7, 8, 9], brightnessvalue := 100\<rparr>) 1 5 [255, 128, 0]
          = Inl (IndexError, rgb3\<lparr>pixels := [7, w, w], brightnessvalue := 100\<rparr>)"
    unfolding u by simp
  from a b c valid_mode_RGB init_rgb3 show ?thesis by blast
qed

section \<open>Segmented gradient\<close>

subsection \<open>The exact interpolation\<close>

lemma py_round_frac:
  assumes "0 < d"
  shows "py_round (of_int n / of_int d) =
    (if 2 * (n mod d) < d then n div d
     else if d < 2 * (n mod d) then n div d + 1
     else if even (n div d) then n div d else n div d + 1)"
proof -
  define q where "q = n div d"
  define r where "r = n mod d"
  have n: "n = d * q + r" by (simp add: q_def r_def)
  from assms have dr: "(of_int d :: rat) > 0" by simp
  have x: "(of_int n / of_int d :: rat) = of_int q + of_int r / of_int d"
    using assms by (simp add: n field_simps)
  have fl: "\<lfloor>(of_int n / of_int d :: rat)\<rfloor> = q"
    using floor_divide_of_int_eq [of n d, where ?'a = rat] by (simp add: q_def)
  have d: "(of_int n / of_int d :: rat) - of_int q = of_int r / of_int d"
    by (simp add: x)
  have lt: "(of_int r / of_int d :: rat) < 1 / 2 \<longleftrightarrow> 2 * r < d"
  proof -
    have "(of_int r / of_int d :: rat) < 1 / 2 \<longleftrightarrow> (of_int (2 * r) :: rat) < of_int d"
      using dr by (simp add: field_simps)
    also have "\<dots> \<longleftrightarrow> 2 * r < d" by (simp only: of_int_less_iff)
    finally show ?thesis .
  qed
  have gt: "(1 / 2 :: rat) < of_int r / of_int d \<longleftrightarrow> d < 2 * r"
  proof -
    have "(1 / 2 :: rat) < of_int r / of_int d \<longleftrightarrow> (of_int d :: rat) < of_int (2 * r)"
      using dr by (simp add: field_simps)
    also have "\<dots> \<longleftrightarrow> d < 2 * r" by (simp only: of_int_less_iff)
    finally show ?thesis .
  qed
  show ?thesis
    unfolding py_round_def Let_def fl d lt gt q_def [symmetric] r_def [symmetric] by simp
qed

lemma interp_exact_pos:
  assumes "0 < d"
  shows "interp_exact x y j d =
    (if 2 * (((x - y) * j + y * d) mod d) < d then ((x - y) * j + y * d) div d
     else if d < 2 * (((x - y) * j + y * d) mod d) then ((x - y) * j + y * d) div d + 1
     else if even (((x - y) * j + y * d) div d) then ((x - y) * j + y * d) div d
     else ((x - y) * j + y * d) div d + 1)"
proof -
  from assms have "(of_int (x - y) * (of_int j / of_int d) + of_int y :: rat)
      = of_int ((x - y) * j + y * d) / of_int d"
    by (simp add: field_simps)
  then show ?thesis unfolding interp_exact_def by (simp only: py_round_frac [OF assms])
qed

subsection \<open>The strip of the module's example\<close>

text \<open>
  \<^verbatim>\<open>strip = Neopixel(16, 0, 22, "GRB")\<close> followed by \<^verbatim>\<open>strip.brightness(50)\<close>.
\<close>

lemma init_grb16: "init 16 ''GRB'' (1 / 10000) = Inr grb16"
  by (simp add: init_def shift_rgb_def bind_err_def grb16_def Let_def)

lemma brightness_grb16:
  "snd (brightness grb16 (Some 50)) = grb16\<lparr>pixels := replicate 16 0, brightnessvalue := 50\<rparr>"
  by (simp add: brightness_def Let_def grb16_def)

lemma set_pixel_grb16:
  "set_pixel (grb16\<lparr>pixels := px, brightnessvalue := 50\<rparr>) i [r, g, b] =
     bind_err (array_setitem px i
        ((2 * (b * 50) + 255) div 510
         OR push_bit 8 ((2 * (r * 50) + 255) div 510)
         OR push_bit 16 ((2 * (g * 50) + 255) div 510)))
       (\<lambda>px'. Inr (grb16\<lparr>pixels := px', brightnessvalue := 50\<rparr>))"
proof -
  let ?s = "grb16\<lparr>pixels := px, brightnessvalue := 50\<rparr>"
  have "set_pixel ?s i [r, g, b] =
    bind_err (array_setitem (pixels ?s) i
      (push_bit (nat 0)
          (if length [r, g, b] = 4 \<and> CHR ''W'' \<in> mode ?s
           then py_round (of_int ([r, g, b] ! 3) * (of_int (brightnessvalue ?s) / 255)) else 0)
       OR push_bit (nat 0) (py_round (of_int ([r, g, b] ! 2) * (of_int (brightnessvalue ?s) / 255)))
       OR push_bit (nat 8) (py_round (of_int ([r, g, b] ! 0) * (of_int (brightnessvalue ?s) / 255)))
       OR push_bit (nat 16) (py_round (of_int ([r, g, b] ! 1) * (of_int (brightnessvalue ?s) / 255)))))
      (\<lambda>px. Inr (?s\<lparr>pixels := px\<rparr>))"
    by (rule set_pixel_unfold) (simp_all add: grb16_def)
  also have "\<dots> = bind_err (array_setitem px i
        ((2 * (b * 50) + 255) div 510
         OR push_bit 8 ((2 * (r * 50) + 255) div 510)
         OR push_bit 16 ((2 * (g * 50) + 255) div 510)))
       (\<lambda>px'. Inr (grb16\<lparr>pixels := px', brightnessvalue := 50\<rparr>))"
    by (simp only: scale_exact) (simp add: grb16_def)
  finally show ?thesis .
qed

subsection \<open>The two flags\<close>

text \<open>
  What the two flags do to a pass of the loop body. With \<^verbatim>\<open>rainbow\<close> set, a pass
  leaves \<^verbatim>\<open>reverse\<close> as it finds it, so a run that starts with \<^verbatim>\<open>reverse\<close> unset
  writes every pixel at \<^verbatim>\<open>start_pixel + j\<close>.
\<close>

lemma seg_body_rainbow_keeps_reverse:
  assumes "seg_body interp color_list pixel2 step True i color j self loc = Inr (self', loc', brk)"
  shows "reverse loc' = reverse loc"
  using assms
  by (auto simp: seg_body_def Let_def bind_err_def split: sum.splits if_splits prod.splits)

text \<open>
  On the strip of the example, the first pass with the flags forced (rainbow set,
  reverse unset) writes the first colour at pixel 0 and keeps the locals; with the
  defaults of the two parameters (reverse set, rainbow unset) it would write it at
  pixel 4 and move on to the segment from 4 to 15.
\<close>

lemma seg_body_forced:
  "seg_body interp_exact [[255, 0, 0], [255, 255, 0], [0, 255, 0], [0, 0, 255]] 15 4 True
     0 [255, 0, 0] 0 (grb16\<lparr>pixels := replicate 16 0, brightnessvalue := 50\<rparr>)
     \<lparr>start_pixel = 0, end_pixel = 4, reverse = False\<rparr>
   = Inr (grb16\<lparr>pixels := [12800, 0, 0, 0, 0, 0, 0, 0, 0, 0, 0, 0, 0, 0, 0, 0],
                 brightnessvalue := 50\<rparr>,
          \<lparr>start_pixel = 0, end_pixel = 4, reverse = False\<rparr>, False)"
  by (simp add: seg_body_def Let_def list_getitem_def interp_channel_def tuple_getitem_def
        bind_err_def interp_exact_pos set_pixel_grb16 array_setitem_def numeral_eq_Suc)

lemma seg_body_as_passed:
  "seg_body interp_exact [[255, 0, 0], [255, 255, 0], [0, 255, 0], [0, 0, 255]] 15 4 False
     0 [255, 0, 0] 0 (grb16\<lparr>pixels := replicate 16 0, brightnessvalue := 50\<rparr>)
     \<lparr>start_pixel = 0, end_pixel = 4, reverse = True\<rparr>
   = Inr (grb16\<lparr>pixels := [0, 0, 0, 0, 12800, 0, 0, 0, 0, 0, 0, 0, 0, 0, 0, 0],
                 brightnessvalue := 50\<rparr>,
          \<lparr>start_pixel = 4, end_pixel = 15, reverse = True\<rparr>, False)"
  by (simp add: seg_body_def Let_def list_getitem_def interp_channel_def tuple_getitem_def
        bind_err_def interp_exact_pos set_pixel_grb16 array_setitem_def numeral_eq_Suc)

text \<open>
  The loops of the example, run with rainbow set and reverse unset: four segments of
  step 4, each written upwards from its first pixel, the last one shortened to end at
  pixel 15 and left by \<^verbatim>\<open>break\<close> once \<^verbatim>\<open>end_pixel + j\<close> exceeds 17. The words are
  \<open>green * 65536 + red * 256 + blue\<close> at brightness 50.
\<close>

lemma seg_outer_example:
  "seg_outer interp_exact [[255, 0, 0], [255, 255, 0], [0, 255, 0], [0, 0, 255]] 15 4 True
     (enumerate_list [[255, 0, 0], [255, 255, 0], [0, 255, 0], [0, 0, 255]])
     (grb16\<lparr>pixels := replicate 16 0, brightnessvalue := 50\<rparr>)
     \<lparr>start_pixel = 0, end_pixel = 4, reverse = False\<rparr>
   = Inr (grb16\<lparr>pixels := [12800, 864768, 1651200, 2437632, 3289600, 3286272, 3283200,
                            3280128, 3276800, 2424845, 1638425, 852005, 50, 4385, 8465, 12800],
                 brightnessvalue := 50\<rparr>)"
  by (simp add: enumerate_list_def upt_rec upto_rec1 seg_body_def Let_def list_getitem_def
        interp_channel_def tuple_getitem_def bind_err_def interp_exact_pos set_pixel_grb16
        array_setitem_def numeral_eq_Suc)

subsection \<open>A list of four colours\<close>

text \<open>
  C9: a call of \<^verbatim>\<open>segment_gradient\<close> with a list of exactly four colours runs the
  loops with rainbow set and reverse unset, whatever the two arguments are: unless
  \<open>pixel2 = pixel1\<close>, where it returns at once, its result is that of the loops
  started with \<^verbatim>\<open>rainbow = True\<close> and \<^verbatim>\<open>reverse = False\<close>, a step of
  \<open>(pixel2 + 1) div 4\<close> and the locals \<^verbatim>\<open>start_pixel = pixel1\<close>,
  \<^verbatim>\<open>end_pixel = step\<close>. So the buffer it produces, or the exception it raises and
  the buffer at that moment, is the one of the same call with \<^verbatim>\<open>rainbow=True\<close> and
  \<^verbatim>\<open>reverse=False\<close>. This holds for every rounding of the interpolation.
\<close>

theorem segment_gradient_four_colors:
  assumes "length color_list = 4"
  shows "segment_gradient interp self color_list pixel1 pixel2 reverse0 rainbow
      = (if pixel2 - pixel1 = 0 then Inr self
         else seg_outer interp color_list pixel2 ((pixel2 + 1) div 4) True
                (enumerate_list color_list) self
                \<lparr>start_pixel = pixel1, end_pixel = (pixel2 + 1) div 4, reverse = False\<rparr>)
    \<and> segment_gradient interp self color_list pixel1 pixel2 reverse0 rainbow
      = segment_gradient interp self color_list pixel1 pixel2 False True"
  using assms by (simp add: segment_gradient_def Let_def)

text \<open>
  The call of the module's example,
  \<^verbatim>\<open>strip.segment_gradient([r1, y2, g1, b5], reverse=False)\<close> on 16 LEDs at
  brightness 50, and the same call with the defaults of both parameters
  (\<^verbatim>\<open>reverse=True, rainbow=False\<close>): both fill the strip with the run of the loops
  above, from red at pixel 0 through yellow at 4, green at 8 and blue at 12 back to
  red at 15.
\<close>

theorem segment_gradient_four_colors_witness:
  "length [[255, 0, 0], [255, 255, 0], [0, 255, 0], [0, 0, 255 :: int]] = 4
   \<and> segment_gradient interp_exact (grb16\<lparr>pixels := replicate 16 0, brightnessvalue := 50\<rparr>)
       [[255, 0, 0], [255, 255, 0], [0, 255, 0], [0, 0, 255]] 0 15 False False
     = Inr (grb16\<lparr>pixels := [12800, 864768, 1651200, 2437632, 3289600, 3286272, 3283200,
                            3280128, 3276800, 2424845, 1638425, 852005, 50, 4385, 8465, 12800],
                 brightnessvalue := 50\<rparr>)
   \<and> segment_gradient interp_exact (grb16\<lparr>pixels := replicate 16 0, brightnessvalue := 50\<rparr>)
       [[255, 0, 0], [255, 255, 0], [0, 255, 0], [0, 0, 255]] 0 15 True False
     = Inr (grb16\<lparr>pixels := [12800, 864768, 1651200, 2437632, 3289600, 3286272, 3283200,
                            3280128, 3276800, 2424845, 1638425, 852005, 50, 4385, 8465, 12800],
                 brightnessvalue := 50\<rparr>)"
proof -
  let ?cl = "[[255, 0, 0], [255, 255, 0], [0, 255, 0], [0, 0, 255 :: int]]"
  let ?s = "grb16\<lparr>pixels := replicate 16 0, brightnessvalue := 50\<rparr>"
  have l: "length ?cl = 4" by simp
  have e: "((15 :: int) - 0 = 0) = False" "((15 :: int) + 1) div 4 = 4" by simp_all
  note t = segment_gradient_four_colors [OF l, of interp_exact ?s 0 15, THEN conjunct1]
  from l t [of False False] t [of True False] show ?thesis
    by (simp only: e if_False seg_outer_example simp_thms)
qed

end
